theory Spec2Isabelle
  imports Complex_Main "HOL-Library.Signed_Division"
begin

section \<open>Data model of the plane extractor\<close>

text \<open>
  The development follows \<^verbatim>\<open>plane_extractor.cpp\<close> and \<^verbatim>\<open>histogram.cpp\<close>.
  Floating-point numbers (\<^verbatim>\<open>float\<close>, \<^verbatim>\<open>double\<close>) are modelled as exact reals: there is no
  rounding and no NaN. 32-bit integers are modelled as unbounded integers; no operation of
  the modelled code relies on wrap-around.
\<close>

type_synonym vec3 = "real \<times> real \<times> real"

definition dot :: "vec3 \<Rightarrow> vec3 \<Rightarrow> real" where
  "dot a b = (case a of (ax, ay, az) \<Rightarrow> case b of (bx, by, bz) \<Rightarrow> ax * bx + ay * by + az * bz)"

text \<open>
  A dense matrix of Eigen, stored column by column: the coefficient \<open>(i, j)\<close> is the entry
  \<open>j * rows + i\<close> of the buffer.
\<close>

record matrix =
  m_rows :: nat
  m_cols :: nat
  m_data :: "real list"

text \<open>
  The values read from the configuration by \<^verbatim>\<open>getInt\<close>, \<^verbatim>\<open>getFloat\<close> and \<^verbatim>\<open>getBool\<close>.
\<close>

record config =
  patchSize :: int
  histogramBinsPerCoord :: int
  minCosAngleForMerge :: real
  maxMergeDist :: real
  minRegionGrowingCandidateSize :: int
  minRegionGrowingCellsActivated :: int
  minRegionPlanarityScore :: real
  doRefinement :: bool
  refinementMultiplierCoeff :: real

text \<open>
  A \<^verbatim>\<open>CellSegment\<close> as the extractor sees it: the values of its getters. The implementation
  of the class (its constructor, \<^verbatim>\<open>operator+=\<close> and \<^verbatim>\<open>calculateStats\<close>) is not part of the
  sources at hand; the accumulated sums it keeps live in the extension field of the record,
  and the three operations are parameters of the functions that call them.
\<close>

record cell_segment =
  getNormal :: vec3
  getMean :: vec3
  getD :: real
  getMSE :: real
  getScore :: real
  isPlanar :: bool

text \<open>
  The members of \<^verbatim>\<open>PlaneExtractor\<close>. The cell grid is a vector of shared pointers: an entry
  is \<open>None\<close> for \<^verbatim>\<open>nullptr\<close>; a plane segment is a pointer into the grid and is modelled by the
  index of the cell it points to, so that a mutation through the segment is a mutation of
  the grid entry. Matrices of OpenCV are lists of rows.
\<close>

record 'a plane_extractor =
  pe_config :: config
  nr_horizontal_cells :: int
  nr_vertical_cells :: int
  nr_total_cells :: int
  nr_pts_per_cell :: int
  image_height :: int
  image_width :: int
  cell_grid :: "'a cell_segment_scheme option list"
  grid_plane_seg_map :: "int list list"
  grid_plane_seg_map_eroded :: "int list list"
  seg_map_stacked :: "int list"

text \<open>
  \<open>OutOfRange\<close> is the \<^verbatim>\<open>std::out_of_range\<close> exception thrown by \<^verbatim>\<open>growSeed\<close>. A read or write
  outside an array, a null pointer dereference and the use of an uninitialised variable are
  undefined behaviour in the source; the model stops with \<open>UndefinedBehaviour\<close> there.
\<close>

datatype error = OutOfRange | UndefinedBehaviour

definition nth_int :: "'b list \<Rightarrow> int \<Rightarrow> 'b option" where
  "nth_int xs i = (if 0 \<le> i \<and> nat i < length xs then Some (xs ! nat i) else None)"

definition cell_at :: "'a plane_extractor \<Rightarrow> int \<Rightarrow> 'a cell_segment_scheme option" where
  "cell_at pe i = (case nth_int (cell_grid pe) i of None \<Rightarrow> None | Some p \<Rightarrow> p)"

section \<open>Region growing: \<^verbatim>\<open>growSeed\<close>\<close>

text \<open>
  A \<^verbatim>\<open>std::bitset\<close> is a list of booleans, one per bit. \<open>count_clear\<close> counts the bits that
  are not set; it is the termination measure of the flood.
\<close>

definition count_clear :: "bool list \<Rightarrow> nat" where
  "count_clear bs = length (filter Not bs)"

text \<open>
  Lines 397-407: the compatibility test between the parent cell \<open>prev_index\<close> and the cell
  \<open>index\<close>. The result is \<open>None\<close> when a read is out of bounds or a cell pointer is null,
  and otherwise tells whether the function returns early (the cell is rejected).
\<close>

definition rejects ::
  "'a plane_extractor \<Rightarrow> int \<Rightarrow> int \<Rightarrow> real list \<Rightarrow> bool option" where
  "rejects pe prev_index index cell_dist_tols =
     (case (cell_at pe prev_index, cell_at pe index, nth_int cell_dist_tols index) of
        (Some c1, Some c2, Some tol) \<Rightarrow>
          (let d_1 = getD c1;
               normal_1 = getNormal c1;
               normal_2 = getNormal c2;
               mean_2 = getMean c2;
               cos_angle = dot normal_1 normal_2;
               merge_dist = (dot normal_1 mean_2 + d_1)\<^sup>2
           in Some (cos_angle < minCosAngleForMerge (pe_config pe) \<or> merge_dist > tol))
      | _ \<Rightarrow> None)"

function growSeed ::
  "'a plane_extractor \<Rightarrow> int \<Rightarrow> int \<Rightarrow> int \<Rightarrow> bool list \<Rightarrow> bool list \<Rightarrow> real list
     \<Rightarrow> error + bool list" where
  "growSeed pe x y prev_index unassigned activation_map cell_dist_tols =
     (let index = x + nr_horizontal_cells pe * y in
      if index \<ge> nr_total_cells pe then Inl OutOfRange
      else if index < 0 \<or> nat index \<ge> length unassigned \<or> nat index \<ge> length activation_map
        then Inl UndefinedBehaviour
      else if \<not> unassigned ! nat index \<or> activation_map ! nat index then Inr activation_map
      else case rejects pe prev_index index cell_dist_tols of
        None \<Rightarrow> Inl UndefinedBehaviour
      | Some True \<Rightarrow> Inr activation_map
      | Some False \<Rightarrow>
         (case (if x > 0
                then growSeed pe (x - 1) y index unassigned
                       (activation_map[nat index := True]) cell_dist_tols
                else Inr (activation_map[nat index := True])) of
            Inl e \<Rightarrow> Inl e
          | Inr a1 \<Rightarrow>
         (case (if x < nr_horizontal_cells pe - 1
                then growSeed pe (x + 1) y index unassigned a1 cell_dist_tols
                else Inr a1) of
            Inl e \<Rightarrow> Inl e
          | Inr a2 \<Rightarrow>
         (case (if y > 0
                then growSeed pe x (y - 1) index unassigned a2 cell_dist_tols
                else Inr a2) of
            Inl e \<Rightarrow> Inl e
          | Inr a3 \<Rightarrow>
             (if y < nr_vertical_cells pe - 1
              then growSeed pe x (y + 1) index unassigned a3 cell_dist_tols
              else Inr a3)))))"
  by pat_completeness auto


text \<open>
  \<open>extends a b\<close>: the bitset \<open>b\<close> has the size of \<open>a\<close> and every bit set in \<open>a\<close> is set
  in \<open>b\<close>.
\<close>

definition extends :: "bool list \<Rightarrow> bool list \<Rightarrow> bool" where
  "extends a b \<longleftrightarrow> length b = length a \<and> (\<forall>i < length a. a ! i \<longrightarrow> b ! i)"

lemma extends_refl: "extends a a" by (simp add: extends_def)
lemma extends_trans: "extends a b \<Longrightarrow> extends b c \<Longrightarrow> extends a c" by (simp add: extends_def)
lemma extends_set: "extends a (a[i := True])"
  by (cases "i < length a") (auto simp add: extends_def nth_list_update)

lemma count_clear_extends: "extends a b \<Longrightarrow> count_clear b \<le> count_clear a"
proof (induction a arbitrary: b)
  case Nil then show ?case by (simp add: extends_def count_clear_def)
next
  case (Cons x xs)
  then obtain y ys where b: "b = y # ys" by (cases b) (auto simp: extends_def)
  from Cons.prems b have "extends xs ys" and "x \<longrightarrow> y" by (force simp: extends_def)+
  with Cons.IH[of ys] b show ?case by (auto simp: count_clear_def)
qed

lemma count_clear_set: "i < length a \<Longrightarrow> \<not> a ! i \<Longrightarrow> count_clear (a[i := True]) < count_clear a"
proof (induction a arbitrary: i)
  case Nil then show ?case by simp
next
  case (Cons x xs)
  show ?case
  proof (cases i)
    case 0 with Cons.prems show ?thesis by (simp add: count_clear_def)
  next
    case (Suc j)
    with Cons.prems Cons.IH[of j] show ?thesis by (simp add: count_clear_def)
  qed
qed

lemma growSeed_chain_dom:
  assumes dom: "growSeed_dom (pe, x, y, prev_index, unassigned, activation_map, cell_dist_tols)"
    and res: "growSeed pe x y prev_index unassigned activation_map cell_dist_tols = Inr a'"
    and idx: "index = x + nr_horizontal_cells pe * y"
  shows "a' = activation_map \<or>
    (\<not> nr_total_cells pe \<le> index \<and>
     \<not> (index < 0 \<or> length unassigned \<le> nat index \<or> length activation_map \<le> nat index) \<and>
     \<not> (\<not> unassigned ! nat index \<or> activation_map ! nat index) \<and>
     rejects pe prev_index index cell_dist_tols = Some False \<and>
     (\<exists>a1 a2 a3.
       (if 0 < x then growSeed pe (x - 1) y index unassigned (activation_map[nat index := True]) cell_dist_tols
        else Inr (activation_map[nat index := True])) = Inr a1 \<and>
       (if x < nr_horizontal_cells pe - 1 then growSeed pe (x + 1) y index unassigned a1 cell_dist_tols
        else Inr a1) = Inr a2 \<and>
       (if 0 < y then growSeed pe x (y - 1) index unassigned a2 cell_dist_tols
        else Inr a2) = Inr a3 \<and>
       (if y < nr_vertical_cells pe - 1 then growSeed pe x (y + 1) index unassigned a3 cell_dist_tols
        else Inr a3) = Inr a'))"
  using res unfolding growSeed.psimps[OF dom] Let_def idx[symmetric]
  by (simp split: if_splits option.splits bool.splits sum.splits)

lemma growSeed_extends_dom:
  "growSeed_dom (pe, x, y, prev_index, unassigned, activation_map, cell_dist_tols) \<Longrightarrow>
   growSeed pe x y prev_index unassigned activation_map cell_dist_tols = Inr a' \<Longrightarrow>
   extends activation_map a'"
proof (induction pe x y prev_index unassigned activation_map cell_dist_tols arbitrary: a' rule: growSeed.pinduct)
  case (1 pe x y prev_index unassigned activation_map cell_dist_tols)
  define index where "index = x + nr_horizontal_cells pe * y"
  from growSeed_chain_dom[OF "1.hyps" "1.prems" index_def]
  show ?case
  proof (elim disjE conjE exE)
    assume "a' = activation_map"
    then show ?thesis by (simp add: extends_refl)
  next
    fix a1 a2 a3
    assume g: "\<not> nr_total_cells pe \<le> index"
      "\<not> (index < 0 \<or> length unassigned \<le> nat index \<or> length activation_map \<le> nat index)"
      "\<not> (\<not> unassigned ! nat index \<or> activation_map ! nat index)"
      "rejects pe prev_index index cell_dist_tols = Some False"
    and r1: "(if 0 < x then growSeed pe (x - 1) y index unassigned (activation_map[nat index := True]) cell_dist_tols
        else Inr (activation_map[nat index := True])) = Inr a1"
    and r2: "(if x < nr_horizontal_cells pe - 1 then growSeed pe (x + 1) y index unassigned a1 cell_dist_tols
        else Inr a1) = Inr a2"
    and r3: "(if 0 < y then growSeed pe x (y - 1) index unassigned a2 cell_dist_tols
        else Inr a2) = Inr a3"
    and r4: "(if y < nr_vertical_cells pe - 1 then growSeed pe x (y + 1) index unassigned a3 cell_dist_tols
        else Inr a3) = Inr a'"
    have e1: "extends (activation_map[nat index := True]) a1"
      using "1.IH"(1)[OF index_def g refl] r1 by (cases "0 < x") (simp_all add: extends_refl)
    have e2: "extends a1 a2"
      using "1.IH"(2)[OF index_def g refl r1] r2
      by (cases "x < nr_horizontal_cells pe - 1") (simp_all add: extends_refl)
    have e3: "extends a2 a3"
      using "1.IH"(3)[OF index_def g refl r1 r2] r3 by (cases "0 < y") (simp_all add: extends_refl)
    have e4: "extends a3 a'"
      using "1.IH"(4)[OF index_def g refl r1 r2 r3] r4
      by (cases "y < nr_vertical_cells pe - 1") (simp_all add: extends_refl)
    show ?thesis
      using extends_set[of activation_map "nat index"] e1 e2 e3 e4 by (blast intro: extends_trans)
  qed
qed


lemma growSeed_result_clear_dom:
  assumes "(if c then growSeed pe x y p unassigned a tols else Inr a) = Inr b"
    and "c \<Longrightarrow> growSeed_dom (pe, x, y, p, unassigned, a, tols)"
  shows "count_clear b \<le> count_clear a"
  using assms growSeed_extends_dom[of pe x y p unassigned a tols b]
  by (cases c) (auto intro: count_clear_extends simp: extends_refl)

termination growSeed
proof (relation "measure (\<lambda>(pe, x, y, prev_index, unassigned, activation_map, cell_dist_tols).
                           count_clear activation_map)", goal_cases)
  case 1
  show ?case by simp
next
  case (2 pe x y prev_index unassigned activation_map cell_dist_tols index r)
  then show ?case by (simp add: count_clear_set)
next
  case (3 pe x y prev_index unassigned activation_map cell_dist_tols index r a1)
  have "count_clear a1 \<le> count_clear (activation_map[nat index := True])"
    using 3 by (intro growSeed_result_clear_dom[where c = "0 < x"]) auto
  with 3 show ?case using count_clear_set[of "nat index" activation_map] by simp
next
  case (4 pe x y prev_index unassigned activation_map cell_dist_tols index r a1 a2)
  have "count_clear a1 \<le> count_clear (activation_map[nat index := True])"
    using 4 by (intro growSeed_result_clear_dom[where c = "0 < x"]) auto
  moreover have "count_clear a2 \<le> count_clear a1"
    using 4 by (intro growSeed_result_clear_dom[where c = "x < nr_horizontal_cells pe - 1"]) auto
  ultimately show ?case using 4 count_clear_set[of "nat index" activation_map] by simp
next
  case (5 pe x y prev_index unassigned activation_map cell_dist_tols index r a1 a2 a3)
  have "count_clear a1 \<le> count_clear (activation_map[nat index := True])"
    using 5 by (intro growSeed_result_clear_dom[where c = "0 < x"]) auto
  moreover have "count_clear a2 \<le> count_clear a1"
    using 5 by (intro growSeed_result_clear_dom[where c = "x < nr_horizontal_cells pe - 1"]) auto
  moreover have "count_clear a3 \<le> count_clear a2"
    using 5 by (intro growSeed_result_clear_dom[where c = "0 < y"]) auto
  ultimately show ?case using 5 count_clear_set[of "nat index" activation_map] by simp
qed

declare growSeed.simps [simp del]

definition in_grid :: "'a plane_extractor \<Rightarrow> int \<Rightarrow> int \<Rightarrow> bool" where
  "in_grid pe x y \<longleftrightarrow>
     0 \<le> x \<and> x < nr_horizontal_cells pe \<and> 0 \<le> y \<and> y < nr_vertical_cells pe"

lemma in_grid_index:
  assumes "in_grid pe x y"
    and "nr_total_cells pe = nr_horizontal_cells pe * nr_vertical_cells pe"
  shows "0 \<le> x + nr_horizontal_cells pe * y" and "x + nr_horizontal_cells pe * y < nr_total_cells pe"
proof -
  let ?W = "nr_horizontal_cells pe" and ?H = "nr_vertical_cells pe"
  from assms(1) have b: "0 \<le> x" "x < ?W" "0 \<le> y" "y \<le> ?H - 1" by (auto simp: in_grid_def)
  then have "0 \<le> ?W * y" by simp
  with b show "0 \<le> x + ?W * y" by simp
  from b have "?W * y \<le> ?W * (?H - 1)" by (intro mult_left_mono) auto
  then have "x + ?W * y < ?W + ?W * (?H - 1)" using b by linarith
  also have "\<dots> = ?W * ?H" by (simp add: algebra_simps)
  finally show "x + ?W * y < nr_total_cells pe" using assms(2) by simp
qed

lemma seed_in_grid:
  assumes "0 \<le> nr_horizontal_cells pe"
    and "nr_total_cells pe = nr_horizontal_cells pe * nr_vertical_cells pe"
    and "0 \<le> seed_id" and "seed_id < nr_total_cells pe"
  shows "in_grid pe (seed_id smod nr_horizontal_cells pe) (seed_id sdiv nr_horizontal_cells pe)"
proof -
  let ?W = "nr_horizontal_cells pe" and ?H = "nr_vertical_cells pe"
  have W: "0 < ?W" using assms by (cases "?W = 0") auto
  have d: "seed_id sdiv ?W = seed_id div ?W" "seed_id smod ?W = seed_id mod ?W"
    using W assms(3) by (simp_all add: signed_divide_int_def signed_modulo_int_def sgn_if)
  have "seed_id div ?W < ?H"
  proof (rule ccontr)
    assume "\<not> seed_id div ?W < ?H"
    then have "?W * ?H \<le> ?W * (seed_id div ?W)" using W by (intro mult_left_mono) auto
    also have "\<dots> \<le> seed_id"
      using W mult_div_mod_eq[of ?W seed_id] pos_mod_sign[of ?W seed_id] by linarith
    finally show False using assms by simp
  qed
  moreover have "0 \<le> seed_id div ?W" using W assms(3) by (simp add: pos_imp_zdiv_nonneg_iff)
  ultimately show ?thesis using W by (simp add: in_grid_def d)
qed

lemma growSeed_rel_in_grid:
  assumes "growSeed_rel callee caller"
    and "caller = (pe, x, y, prev_index, unassigned, activation_map, cell_dist_tols)"
    and "in_grid pe x y"
  shows "\<exists>x' y' p' a'. callee = (pe, x', y', p', unassigned, a', cell_dist_tols) \<and> in_grid pe x' y'"
  using assms by (cases rule: growSeed_rel.cases) (auto simp: in_grid_def)

lemma growSeed_reach_in_grid:
  assumes "growSeed_rel\<^sup>*\<^sup>* callee caller"
    and "caller = (pe, x, y, prev_index, unassigned, activation_map, cell_dist_tols)"
    and "in_grid pe x y"
  shows "\<exists>x' y' p' a'. callee = (pe, x', y', p', unassigned, a', cell_dist_tols) \<and> in_grid pe x' y'"
  using assms
proof (induction rule: converse_rtranclp_induct)
  case base
  then show ?case by auto
next
  case (step c1 c2)
  from step.IH[OF step.prems] obtain x' y' p' a' where
    "c2 = (pe, x', y', p', unassigned, a', cell_dist_tols)" "in_grid pe x' y'" by blast
  from growSeed_rel_in_grid[OF step.hyps(1) this] show ?case .
qed


definition grow_wf :: "'a plane_extractor \<Rightarrow> bool list \<Rightarrow> bool list \<Rightarrow> real list \<Rightarrow> bool" where
  "grow_wf pe unassigned activation_map cell_dist_tols \<longleftrightarrow>
     nr_total_cells pe \<le> int (length unassigned) \<and>
     nr_total_cells pe \<le> int (length activation_map) \<and>
     nr_total_cells pe \<le> int (length cell_dist_tols) \<and>
     (\<forall>i. 0 \<le> i \<and> i < nr_total_cells pe \<longrightarrow> cell_at pe i \<noteq> None)"

lemma grow_wf_extends:
  "grow_wf pe u a t \<Longrightarrow> extends a b \<Longrightarrow> grow_wf pe u b t"
  by (simp add: grow_wf_def extends_def)

lemma rejects_defined:
  assumes "grow_wf pe u a t" "0 \<le> p" "p < nr_total_cells pe" "0 \<le> i" "i < nr_total_cells pe"
  shows "rejects pe p i t \<noteq> None"
proof -
  from assms have "cell_at pe p \<noteq> None" "cell_at pe i \<noteq> None"
    by (simp_all add: grow_wf_def)
  then obtain c1 c2 where "cell_at pe p = Some c1" "cell_at pe i = Some c2"
    by auto
  moreover from assms have "nth_int t i \<noteq> None" by (auto simp: grow_wf_def nth_int_def)
  ultimately show ?thesis by (auto simp: rejects_def Let_def)
qed

lemma growSeed_chain:
  assumes res: "growSeed pe x y prev_index unassigned activation_map cell_dist_tols = Inr a'"
    and idx: "index = x + nr_horizontal_cells pe * y"
  shows "a' = activation_map \<or>
    (\<not> nr_total_cells pe \<le> index \<and>
     \<not> (index < 0 \<or> length unassigned \<le> nat index \<or> length activation_map \<le> nat index) \<and>
     \<not> (\<not> unassigned ! nat index \<or> activation_map ! nat index) \<and>
     rejects pe prev_index index cell_dist_tols = Some False \<and>
     (\<exists>a1 a2 a3.
       (if 0 < x then growSeed pe (x - 1) y index unassigned (activation_map[nat index := True]) cell_dist_tols
        else Inr (activation_map[nat index := True])) = Inr a1 \<and>
       (if x < nr_horizontal_cells pe - 1 then growSeed pe (x + 1) y index unassigned a1 cell_dist_tols
        else Inr a1) = Inr a2 \<and>
       (if 0 < y then growSeed pe x (y - 1) index unassigned a2 cell_dist_tols
        else Inr a2) = Inr a3 \<and>
       (if y < nr_vertical_cells pe - 1 then growSeed pe x (y + 1) index unassigned a3 cell_dist_tols
        else Inr a3) = Inr a'))"
  using res unfolding growSeed.simps[of pe x y] Let_def idx[symmetric]
  by (simp split: if_splits option.splits bool.splits sum.splits)

text \<open>An induction rule for the calls of \<open>growSeed\<close> that return normally.\<close>

lemma growSeed_Inr_induct [consumes 1, case_names stop grow]:
  assumes res: "growSeed pe x y prev_index unassigned activation_map cell_dist_tols = Inr a'"
    and stop: "\<And>x y p a. P x y p a a"
    and grow: "\<And>x y p a index a1 a2 a3 a'.
       \<lbrakk>index = x + nr_horizontal_cells pe * y; index < nr_total_cells pe; 0 \<le> index;
        nat index < length unassigned; nat index < length a;
        unassigned ! nat index; \<not> a ! nat index;
        rejects pe p index cell_dist_tols = Some False;
        if 0 < x then growSeed pe (x - 1) y index unassigned (a[nat index := True]) cell_dist_tols = Inr a1
                      \<and> P (x - 1) y index (a[nat index := True]) a1
        else a1 = a[nat index := True];
        if x < nr_horizontal_cells pe - 1
        then growSeed pe (x + 1) y index unassigned a1 cell_dist_tols = Inr a2 \<and> P (x + 1) y index a1 a2
        else a2 = a1;
        if 0 < y then growSeed pe x (y - 1) index unassigned a2 cell_dist_tols = Inr a3
                      \<and> P x (y - 1) index a2 a3
        else a3 = a2;
        if y < nr_vertical_cells pe - 1
        then growSeed pe x (y + 1) index unassigned a3 cell_dist_tols = Inr a' \<and> P x (y + 1) index a3 a'
        else a' = a3\<rbrakk>
       \<Longrightarrow> P x y p a a'"
  shows "P x y prev_index activation_map a'"
  using res stop grow
proof (induction pe x y prev_index unassigned activation_map cell_dist_tols arbitrary: a'
    rule: growSeed.induct)
  case (1 pe x y prev_index unassigned activation_map cell_dist_tols)
  define index where "index = x + nr_horizontal_cells pe * y"
  note grow' = "1.prems"(3)
  from growSeed_chain[OF "1.prems"(1) index_def]
  show ?case
  proof (elim disjE conjE exE)
    assume "a' = activation_map"
    then show ?thesis by (simp add: "1.prems"(2))
  next
    fix a1 a2 a3
    assume g: "\<not> nr_total_cells pe \<le> index"
      "\<not> (index < 0 \<or> length unassigned \<le> nat index \<or> length activation_map \<le> nat index)"
      "\<not> (\<not> unassigned ! nat index \<or> activation_map ! nat index)"
      "rejects pe prev_index index cell_dist_tols = Some False"
    and r1: "(if 0 < x then growSeed pe (x - 1) y index unassigned (activation_map[nat index := True]) cell_dist_tols
        else Inr (activation_map[nat index := True])) = Inr a1"
    and r2: "(if x < nr_horizontal_cells pe - 1 then growSeed pe (x + 1) y index unassigned a1 cell_dist_tols
        else Inr a1) = Inr a2"
    and r3: "(if 0 < y then growSeed pe x (y - 1) index unassigned a2 cell_dist_tols
        else Inr a2) = Inr a3"
    and r4: "(if y < nr_vertical_cells pe - 1 then growSeed pe x (y + 1) index unassigned a3 cell_dist_tols
        else Inr a3) = Inr a'"
    have p1: "if 0 < x then growSeed pe (x - 1) y index unassigned (activation_map[nat index := True]) cell_dist_tols = Inr a1
                      \<and> P (x - 1) y index (activation_map[nat index := True]) a1
        else a1 = activation_map[nat index := True]"
    proof (cases "0 < x")
      case True
      with r1 have e: "growSeed pe (x - 1) y index unassigned (activation_map[nat index := True]) cell_dist_tols = Inr a1"
        by simp
      have "P (x - 1) y index (activation_map[nat index := True]) a1"
        by (rule "1.IH"(1)[OF index_def g refl True e "1.prems"(2)]) (rule grow', assumption+)
      with e True show ?thesis by simp
    next
      case False
      with r1 show ?thesis by simp
    qed
    have p2: "if x < nr_horizontal_cells pe - 1
        then growSeed pe (x + 1) y index unassigned a1 cell_dist_tols = Inr a2 \<and> P (x + 1) y index a1 a2
        else a2 = a1"
    proof (cases "x < nr_horizontal_cells pe - 1")
      case True
      with r2 have e: "growSeed pe (x + 1) y index unassigned a1 cell_dist_tols = Inr a2" by simp
      have "P (x + 1) y index a1 a2"
        by (rule "1.IH"(2)[OF index_def g refl r1 True e "1.prems"(2)]) (rule grow', assumption+)
      with e True show ?thesis by simp
    next
      case False
      with r2 show ?thesis by simp
    qed
    have p3: "if 0 < y then growSeed pe x (y - 1) index unassigned a2 cell_dist_tols = Inr a3
                      \<and> P x (y - 1) index a2 a3
        else a3 = a2"
    proof (cases "0 < y")
      case True
      with r3 have e: "growSeed pe x (y - 1) index unassigned a2 cell_dist_tols = Inr a3" by simp
      have "P x (y - 1) index a2 a3"
        by (rule "1.IH"(3)[OF index_def g refl r1 r2 True e "1.prems"(2)]) (rule grow', assumption+)
      with e True show ?thesis by simp
    next
      case False
      with r3 show ?thesis by simp
    qed
    have p4: "if y < nr_vertical_cells pe - 1
        then growSeed pe x (y + 1) index unassigned a3 cell_dist_tols = Inr a' \<and> P x (y + 1) index a3 a'
        else a' = a3"
    proof (cases "y < nr_vertical_cells pe - 1")
      case True
      with r4 have e: "growSeed pe x (y + 1) index unassigned a3 cell_dist_tols = Inr a'" by simp
      have "P x (y + 1) index a3 a'"
        by (rule "1.IH"(4)[OF index_def g refl r1 r2 r3 True e "1.prems"(2)]) (rule grow', assumption+)
      with e True show ?thesis by simp
    next
      case False
      with r4 show ?thesis by simp
    qed
    have i: "index < nr_total_cells pe" "0 \<le> index" "nat index < length unassigned"
      "nat index < length activation_map" "unassigned ! nat index" "\<not> activation_map ! nat index"
      using g(1-3) by simp_all
    show ?thesis
      by (rule grow'[OF index_def i g(4) p1 p2 p3 p4])
  qed
qed

text \<open>
  \<open>grown unassigned a b\<close>: \<open>b\<close> extends \<open>a\<close> and every bit added is a bit of \<open>unassigned\<close>.
\<close>

definition grown :: "bool list \<Rightarrow> bool list \<Rightarrow> bool list \<Rightarrow> bool" where
  "grown unassigned a b \<longleftrightarrow>
     extends a b \<and> (\<forall>i < length a. b ! i \<longrightarrow> a ! i \<or> (i < length unassigned \<and> unassigned ! i))"

lemma grown_refl: "grown u a a"
  by (simp add: grown_def extends_refl)

lemma grown_trans: "grown u a b \<Longrightarrow> grown u b c \<Longrightarrow> grown u a c"
  unfolding grown_def extends_def by auto

lemma grown_set: "i < length u \<Longrightarrow> u ! i \<Longrightarrow> grown u a (a[i := True])"
  unfolding grown_def using extends_set[of a i]
  by (cases "i < length a") (auto simp: nth_list_update)

lemma grown_step:
  "(if c then A \<and> grown u a b else b = a) \<Longrightarrow> grown u a b"
  by (cases c) (simp_all add: grown_refl)

lemma growSeed_grown:
  assumes "growSeed pe x y prev_index unassigned activation_map cell_dist_tols = Inr a'"
  shows "grown unassigned activation_map a'"
  using assms
proof (induction rule: growSeed_Inr_induct)
  case (stop x y p a)
  show ?case by (rule grown_refl)
next
  case (grow x y p a index a1 a2 a3 a')
  from grow(4,6) have "grown unassigned a (a[nat index := True])" by (rule grown_set)
  moreover from grow(9) have "grown unassigned (a[nat index := True]) a1"
    by (cases "0 < x") (simp_all add: grown_refl)
  moreover from grow(10) have "grown unassigned a1 a2" by (rule grown_step)
  moreover from grow(11) have "grown unassigned a2 a3" by (rule grown_step)
  moreover from grow(12) have "grown unassigned a3 a'" by (rule grown_step)
  ultimately show ?case by (blast intro: grown_trans)
qed

lemma growSeed_extends:
  "growSeed pe x y prev_index unassigned activation_map cell_dist_tols = Inr a' \<Longrightarrow>
   extends activation_map a'"
  using growSeed_grown[of pe x y prev_index unassigned activation_map cell_dist_tols a']
  by (simp add: grown_def)

lemma growSeed_chain_err:
  assumes res: "growSeed pe x y prev_index unassigned activation_map cell_dist_tols = Inl e"
    and idx: "index = x + nr_horizontal_cells pe * y"
  shows "(nr_total_cells pe \<le> index \<and> e = OutOfRange) \<or>
    (\<not> nr_total_cells pe \<le> index \<and> e = UndefinedBehaviour \<and>
     \<not> (0 \<le> index \<and> nat index < length unassigned \<and> nat index < length activation_map)) \<or>
    (\<not> nr_total_cells pe \<le> index \<and> e = UndefinedBehaviour \<and>
     rejects pe prev_index index cell_dist_tols = None) \<or>
    (\<not> nr_total_cells pe \<le> index \<and>
     \<not> (index < 0 \<or> length unassigned \<le> nat index \<or> length activation_map \<le> nat index) \<and>
     \<not> (\<not> unassigned ! nat index \<or> activation_map ! nat index) \<and>
     rejects pe prev_index index cell_dist_tols = Some False \<and>
     (\<exists>a1 a2 a3.
       (0 < x \<and>
        growSeed pe (x - 1) y index unassigned (activation_map[nat index := True]) cell_dist_tols = Inl e) \<or>
       ((if 0 < x then growSeed pe (x - 1) y index unassigned (activation_map[nat index := True]) cell_dist_tols
         else Inr (activation_map[nat index := True])) = Inr a1 \<and>
        x < nr_horizontal_cells pe - 1 \<and>
        growSeed pe (x + 1) y index unassigned a1 cell_dist_tols = Inl e) \<or>
       ((if 0 < x then growSeed pe (x - 1) y index unassigned (activation_map[nat index := True]) cell_dist_tols
         else Inr (activation_map[nat index := True])) = Inr a1 \<and>
        (if x < nr_horizontal_cells pe - 1 then growSeed pe (x + 1) y index unassigned a1 cell_dist_tols
         else Inr a1) = Inr a2 \<and>
        0 < y \<and> growSeed pe x (y - 1) index unassigned a2 cell_dist_tols = Inl e) \<or>
       ((if 0 < x then growSeed pe (x - 1) y index unassigned (activation_map[nat index := True]) cell_dist_tols
         else Inr (activation_map[nat index := True])) = Inr a1 \<and>
        (if x < nr_horizontal_cells pe - 1 then growSeed pe (x + 1) y index unassigned a1 cell_dist_tols
         else Inr a1) = Inr a2 \<and>
        (if 0 < y then growSeed pe x (y - 1) index unassigned a2 cell_dist_tols
         else Inr a2) = Inr a3 \<and>
        y < nr_vertical_cells pe - 1 \<and>
        growSeed pe x (y + 1) index unassigned a3 cell_dist_tols = Inl e)))"
  using res unfolding growSeed.simps[of pe x y] Let_def idx[symmetric]
  by (simp add: not_le not_less split: if_splits option.splits bool.splits sum.splits; blast)


lemma growSeed_if_extends:
  "(if c then growSeed pe x y p u a t else Inr a) = Inr b \<Longrightarrow> extends a b"
  by (cases c) (auto simp: extends_refl dest: growSeed_extends)

text \<open>
  A call at coordinates inside the grid never throws; it stops with undefined behaviour
  only if some array is shorter than the grid or a cell pointer is null.
\<close>

lemma growSeed_error_cases:
  "growSeed pe x y prev_index unassigned activation_map cell_dist_tols = Inl e \<Longrightarrow>
   in_grid pe x y \<Longrightarrow>
   nr_total_cells pe = nr_horizontal_cells pe * nr_vertical_cells pe \<Longrightarrow>
   e = UndefinedBehaviour \<and>
   \<not> (grow_wf pe unassigned activation_map cell_dist_tols \<and> 0 \<le> prev_index \<and>
      prev_index < nr_total_cells pe)"
proof (induction pe x y prev_index unassigned activation_map cell_dist_tols rule: growSeed.induct)
  case (1 pe x y prev_index unassigned activation_map cell_dist_tols)
  define index where "index = x + nr_horizontal_cells pe * y"
  define a0 where "a0 = activation_map[nat index := True]"
  note N = "1.prems"(3)
  have ib: "0 \<le> index" "index < nr_total_cells pe"
    using in_grid_index[OF "1.prems"(2) N] by (simp_all add: index_def)
  have nb: "in_grid pe (x - 1) y" if "0 < x"
    using that "1.prems"(2) by (simp add: in_grid_def)
  have nr: "in_grid pe (x + 1) y" if "x < nr_horizontal_cells pe - 1"
    using that "1.prems"(2) by (simp add: in_grid_def)
  have nu: "in_grid pe x (y - 1)" if "0 < y"
    using that "1.prems"(2) by (simp add: in_grid_def)
  have nd: "in_grid pe x (y + 1)" if "y < nr_vertical_cells pe - 1"
    using that "1.prems"(2) by (simp add: in_grid_def)
  have wf0: "grow_wf pe unassigned a cell_dist_tols"
    if "grow_wf pe unassigned activation_map cell_dist_tols" "extends a0 a" for a
    using that extends_set[of activation_map "nat index"]
    by (auto simp: a0_def intro: grow_wf_extends extends_trans)
  from growSeed_chain_err[OF "1.prems"(1) index_def, folded a0_def]
  show ?case
  proof (elim disjE conjE exE)
    assume "nr_total_cells pe \<le> index"
    with ib show ?thesis by simp
  next
    assume "e = UndefinedBehaviour"
      "\<not> (0 \<le> index \<and> nat index < length unassigned \<and> nat index < length activation_map)"
    with ib show ?thesis by (auto simp: grow_wf_def)
  next
    assume "e = UndefinedBehaviour" "rejects pe prev_index index cell_dist_tols = None"
    with ib rejects_defined[of pe unassigned activation_map cell_dist_tols prev_index index]
    show ?thesis by auto
  next
    fix a1 a2 a3
    assume g: "\<not> nr_total_cells pe \<le> index"
      "\<not> (index < 0 \<or> length unassigned \<le> nat index \<or> length activation_map \<le> nat index)"
      "\<not> (\<not> unassigned ! nat index \<or> activation_map ! nat index)"
      "rejects pe prev_index index cell_dist_tols = Some False"
    and c: "0 < x" "growSeed pe (x - 1) y index unassigned a0 cell_dist_tols = Inl e"
    from "1.IH"(1)[OF index_def g refl c(1) c(2)[unfolded a0_def] nb[OF c(1)] N]
    show ?thesis using ib wf0[OF _ extends_refl] by (auto simp: a0_def)
  next
    fix a1 a2 a3
    assume g: "\<not> nr_total_cells pe \<le> index"
      "\<not> (index < 0 \<or> length unassigned \<le> nat index \<or> length activation_map \<le> nat index)"
      "\<not> (\<not> unassigned ! nat index \<or> activation_map ! nat index)"
      "rejects pe prev_index index cell_dist_tols = Some False"
    and r1: "(if 0 < x then growSeed pe (x - 1) y index unassigned a0 cell_dist_tols else Inr a0) = Inr a1"
    and c: "x < nr_horizontal_cells pe - 1" "growSeed pe (x + 1) y index unassigned a1 cell_dist_tols = Inl e"
    from "1.IH"(2)[OF index_def g refl r1[unfolded a0_def] c nr[OF c(1)] N]
    show ?thesis using ib wf0[OF _ growSeed_if_extends[OF r1]] by auto
  next
    fix a1 a2 a3
    assume g: "\<not> nr_total_cells pe \<le> index"
      "\<not> (index < 0 \<or> length unassigned \<le> nat index \<or> length activation_map \<le> nat index)"
      "\<not> (\<not> unassigned ! nat index \<or> activation_map ! nat index)"
      "rejects pe prev_index index cell_dist_tols = Some False"
    and r1: "(if 0 < x then growSeed pe (x - 1) y index unassigned a0 cell_dist_tols else Inr a0) = Inr a1"
    and r2: "(if x < nr_horizontal_cells pe - 1 then growSeed pe (x + 1) y index unassigned a1 cell_dist_tols
             else Inr a1) = Inr a2"
    and c: "0 < y" "growSeed pe x (y - 1) index unassigned a2 cell_dist_tols = Inl e"
    have "extends a0 a2"
      using growSeed_if_extends[OF r1] growSeed_if_extends[OF r2] by (rule extends_trans)
    from "1.IH"(3)[OF index_def g refl r1[unfolded a0_def] r2 c nu[OF c(1)] N]
    show ?thesis using ib wf0[OF _ \<open>extends a0 a2\<close>] by auto
  next
    fix a1 a2 a3
    assume g: "\<not> nr_total_cells pe \<le> index"
      "\<not> (index < 0 \<or> length unassigned \<le> nat index \<or> length activation_map \<le> nat index)"
      "\<not> (\<not> unassigned ! nat index \<or> activation_map ! nat index)"
      "rejects pe prev_index index cell_dist_tols = Some False"
    and r1: "(if 0 < x then growSeed pe (x - 1) y index unassigned a0 cell_dist_tols else Inr a0) = Inr a1"
    and r2: "(if x < nr_horizontal_cells pe - 1 then growSeed pe (x + 1) y index unassigned a1 cell_dist_tols
             else Inr a1) = Inr a2"
    and r3: "(if 0 < y then growSeed pe x (y - 1) index unassigned a2 cell_dist_tols else Inr a2) = Inr a3"
    and c: "y < nr_vertical_cells pe - 1" "growSeed pe x (y + 1) index unassigned a3 cell_dist_tols = Inl e"
    have "extends a0 a3"
      using growSeed_if_extends[OF r1] growSeed_if_extends[OF r2] growSeed_if_extends[OF r3]
      by (blast intro: extends_trans)
    from "1.IH"(4)[OF index_def g refl r1[unfolded a0_def] r2 r3 c nd[OF c(1)] N]
    show ?thesis using ib wf0[OF _ \<open>extends a0 a3\<close>] by auto
  qed
qed

subsection \<open>A concrete extractor: one row of two cells\<close>

definition flat_cell :: cell_segment where
  "flat_cell = \<lparr>getNormal = (0, 0, -1), getMean = (0, 0, 1000), getD = 1000, getMSE = 1,
     getScore = 100, isPlanar = True\<rparr>"

definition default_config :: config where
  "default_config = \<lparr>patchSize = 12, histogramBinsPerCoord = 20, minCosAngleForMerge = 93 / 100,
     maxMergeDist = 500, minRegionGrowingCandidateSize = 5, minRegionGrowingCellsActivated = 4,
     minRegionPlanarityScore = 50, doRefinement = True, refinementMultiplierCoeff = 15\<rparr>"

definition strip_extractor :: "unit plane_extractor" where
  "strip_extractor = \<lparr>pe_config = default_config, nr_horizontal_cells = 2, nr_vertical_cells = 1,
     nr_total_cells = 2, nr_pts_per_cell = 144, image_height = 12, image_width = 24,
     cell_grid = [Some flat_cell, Some flat_cell],
     grid_plane_seg_map = [[0, 0]], grid_plane_seg_map_eroded = [[0, 0]],
     seg_map_stacked = replicate 288 0\<rparr>"

text \<open>
  Claim C10. Start \<^verbatim>\<open>growSeed\<close> as \<^verbatim>\<open>createPlaneSegments\<close> does, at the coordinates
  \<open>(seed_id % W, seed_id / W)\<close> of a seed index in \<open>[0, N_cells)\<close>. Every call made in the
  recursion (the calls related to the first one by the reflexive transitive closure of the
  recursion relation of \<open>growSeed\<close>) receives coordinates with \<open>0 \<le> x < W_cells\<close> and
  \<open>0 \<le> y < H_cells\<close>, its linear index is below \<open>N_cells\<close>, and it does not throw
  \<^verbatim>\<open>std::out_of_range\<close>.
\<close>

theorem growSeed_calls_in_range:
  assumes "0 \<le> nr_horizontal_cells pe"
    and "nr_total_cells pe = nr_horizontal_cells pe * nr_vertical_cells pe"
    and "0 \<le> seed_id" and "seed_id < nr_total_cells pe"
    and "growSeed_rel\<^sup>*\<^sup>* (pe', x, y, prev_index, unassigned', activation_map', cell_dist_tols')
           (pe, seed_id smod nr_horizontal_cells pe, seed_id sdiv nr_horizontal_cells pe, seed_id,
            unassigned, activation_map, cell_dist_tols)"
  shows "0 \<le> x \<and> x < nr_horizontal_cells pe \<and> 0 \<le> y \<and> y < nr_vertical_cells pe \<and>
         0 \<le> x + nr_horizontal_cells pe * y \<and> x + nr_horizontal_cells pe * y < nr_total_cells pe \<and>
         growSeed pe' x y prev_index unassigned' activation_map' cell_dist_tols' \<noteq> Inl OutOfRange"
proof -
  have "in_grid pe (seed_id smod nr_horizontal_cells pe) (seed_id sdiv nr_horizontal_cells pe)"
    using assms(1-4) by (rule seed_in_grid)
  from growSeed_reach_in_grid[OF assms(5) refl this]
  have eq: "pe' = pe" and g: "in_grid pe x y" by auto
  have "growSeed pe x y prev_index unassigned' activation_map' cell_dist_tols' \<noteq> Inl OutOfRange"
    using growSeed_error_cases[OF _ g assms(2)] by blast
  with in_grid_index[OF g assms(2)] g eq show ?thesis by (simp add: in_grid_def)
qed

lemma strip_rejects: "rejects strip_extractor 1 1 [400, 400] = Some False"
  by (simp add: rejects_def cell_at_def nth_int_def strip_extractor_def flat_cell_def
      default_config_def dot_def Let_def)

theorem growSeed_calls_in_range_witness:
  "0 \<le> nr_horizontal_cells strip_extractor \<and>
   nr_total_cells strip_extractor =
     nr_horizontal_cells strip_extractor * nr_vertical_cells strip_extractor \<and>
   (0::int) \<le> 1 \<and> 1 < nr_total_cells strip_extractor \<and>
   growSeed_rel\<^sup>*\<^sup>*
     (strip_extractor, 0, 0, 1, [True, True], [False, True], [400, 400])
     (strip_extractor, 1 smod nr_horizontal_cells strip_extractor,
      1 sdiv nr_horizontal_cells strip_extractor, 1, [True, True], [False, False], [400, 400]) \<and>
   (0::int) \<le> 0 \<and> 0 < nr_horizontal_cells strip_extractor \<and>
   (0::int) \<le> 0 \<and> 0 < nr_vertical_cells strip_extractor \<and>
   0 \<le> 0 + nr_horizontal_cells strip_extractor * 0 \<and>
   0 + nr_horizontal_cells strip_extractor * 0 < nr_total_cells strip_extractor \<and>
   growSeed strip_extractor 0 0 1 [True, True] [False, True] [400, 400] \<noteq> Inl OutOfRange"
proof -
  have h: "0 \<le> nr_horizontal_cells strip_extractor"
    "nr_total_cells strip_extractor =
       nr_horizontal_cells strip_extractor * nr_vertical_cells strip_extractor"
    "(0::int) \<le> 1" "1 < nr_total_cells strip_extractor"
    by (simp_all add: strip_extractor_def)
  have sm: "1 smod nr_horizontal_cells strip_extractor = 1"
    "1 sdiv nr_horizontal_cells strip_extractor = 0"
    by (simp_all add: strip_extractor_def signed_modulo_int_def signed_divide_int_def)
  have "growSeed_rel
     (strip_extractor, 1 - 1, 0, 1, [True, True], [False, False][nat 1 := True], [400, 400])
     (strip_extractor, 1, 0, 1, [True, True], [False, False], [400, 400])"
    by (rule growSeed_rel.intros(1)[where ?x2.0 = False])
       (simp_all add: strip_rejects, simp_all add: strip_extractor_def)
  then have r: "growSeed_rel\<^sup>*\<^sup>*
     (strip_extractor, 0, 0, 1, [True, True], [False, True], [400, 400])
     (strip_extractor, 1 smod nr_horizontal_cells strip_extractor,
      1 sdiv nr_horizontal_cells strip_extractor, 1, [True, True], [False, False], [400, 400])"
    by (simp add: sm)
  from growSeed_calls_in_range[OF h r] h r show ?thesis by simp
qed

text \<open>
  The compatibility test as the specification words it, and the two combinators used to write
  the order of the recursive calls: \<open>visit c g a\<close> makes the call \<open>g\<close> on the activation map
  \<open>a\<close> when the guard \<open>c\<close> holds, and \<open>then_grow r f\<close> continues with \<open>f\<close> unless \<open>r\<close>
  is an error.
\<close>

definition compatible ::
  "'a cell_segment_scheme \<Rightarrow> 'a cell_segment_scheme \<Rightarrow> real \<Rightarrow> real \<Rightarrow> bool" where
  "compatible parent cand min_cos tol \<longleftrightarrow>
     dot (getNormal parent) (getNormal cand) \<ge> min_cos \<and>
     (dot (getNormal parent) (getMean cand) + getD parent)\<^sup>2 \<le> tol"

definition visit :: "bool \<Rightarrow> (bool list \<Rightarrow> error + bool list) \<Rightarrow> bool list \<Rightarrow> error + bool list" where
  "visit c g a = (if c then g a else Inr a)"

definition then_grow :: "error + bool list \<Rightarrow> (bool list \<Rightarrow> error + bool list) \<Rightarrow> error + bool list" where
  "then_grow r f = (case r of Inl e \<Rightarrow> Inl e | Inr a \<Rightarrow> f a)"

lemma rejects_compatible:
  assumes "cell_at pe prev_index = Some parent" "cell_at pe index = Some cand"
    "nth_int cell_dist_tols index = Some tol"
  shows "rejects pe prev_index index cell_dist_tols =
         Some (\<not> compatible parent cand (minCosAngleForMerge (pe_config pe)) tol)"
  using assms by (auto simp: rejects_def compatible_def Let_def)

lemma then_grow_Inr:
  "then_grow r f = Inr a' \<Longrightarrow> \<exists>a. r = Inr a \<and> f a = Inr a'"
  by (cases r) (simp_all add: then_grow_def)

lemma visit_extends:
  "visit c (\<lambda>a. growSeed pe x y p u a t) a = Inr b \<Longrightarrow> extends a b"
  unfolding visit_def by (rule growSeed_if_extends)

text \<open>
  Claim C8. A call of \<^verbatim>\<open>growSeed\<close> for the cell \<open>index\<close> reached from the parent cell
  \<open>prev_index\<close> activates the cell if and only if the cell is in the unassigned mask, is not
  yet in the activation map, the normals satisfy \<open>n_p \<cdot> n_c \<ge> minCosAngleForMerge\<close> and
  \<open>(n_p \<cdot> m_c + d_p)\<^sup>2 \<le> tol[c]\<close>. When it does, the flood continues from the activation
  map with the cell set, with the cell as the new parent, to the left, right, upper and lower
  neighbour in this order; otherwise the activation map is returned unchanged.
\<close>

theorem growSeed_activation:
  assumes "index = x + nr_horizontal_cells pe * y"
    and "0 \<le> index" and "index < nr_total_cells pe"
    and "nat index < length unassigned" and "nat index < length activation_map"
    and "cell_at pe prev_index = Some parent" and "cell_at pe index = Some cand"
    and "nth_int cell_dist_tols index = Some tol"
    and "activated \<longleftrightarrow>
           unassigned ! nat index \<and> \<not> activation_map ! nat index \<and>
           compatible parent cand (minCosAngleForMerge (pe_config pe)) tol"
  shows "growSeed pe x y prev_index unassigned activation_map cell_dist_tols =
         (if activated then
            then_grow (then_grow (then_grow
              (visit (0 < x) (\<lambda>a. growSeed pe (x - 1) y index unassigned a cell_dist_tols)
                 (activation_map[nat index := True]))
              (visit (x < nr_horizontal_cells pe - 1)
                 (\<lambda>a. growSeed pe (x + 1) y index unassigned a cell_dist_tols)))
              (visit (0 < y) (\<lambda>a. growSeed pe x (y - 1) index unassigned a cell_dist_tols)))
              (visit (y < nr_vertical_cells pe - 1)
                 (\<lambda>a. growSeed pe x (y + 1) index unassigned a cell_dist_tols))
          else Inr activation_map) \<and>
         (\<forall>a'. growSeed pe x y prev_index unassigned activation_map cell_dist_tols = Inr a' \<longrightarrow>
           (a' ! nat index \<and> \<not> activation_map ! nat index \<longleftrightarrow> activated))"
proof -
  have eq: "growSeed pe x y prev_index unassigned activation_map cell_dist_tols =
         (if activated then
            then_grow (then_grow (then_grow
              (visit (0 < x) (\<lambda>a. growSeed pe (x - 1) y index unassigned a cell_dist_tols)
                 (activation_map[nat index := True]))
              (visit (x < nr_horizontal_cells pe - 1)
                 (\<lambda>a. growSeed pe (x + 1) y index unassigned a cell_dist_tols)))
              (visit (0 < y) (\<lambda>a. growSeed pe x (y - 1) index unassigned a cell_dist_tols)))
              (visit (y < nr_vertical_cells pe - 1)
                 (\<lambda>a. growSeed pe x (y + 1) index unassigned a cell_dist_tols))
          else Inr activation_map)"
    unfolding growSeed.simps[of pe x y] Let_def assms(1)[symmetric]
      rejects_compatible[OF assms(6-8)] assms(9) visit_def then_grow_def
    using assms(2-5)
    by (simp split: sum.splits)
  have "\<forall>a'. growSeed pe x y prev_index unassigned activation_map cell_dist_tols = Inr a' \<longrightarrow>
           (a' ! nat index \<and> \<not> activation_map ! nat index \<longleftrightarrow> activated)"
  proof (intro allI impI)
    fix a'
    assume r: "growSeed pe x y prev_index unassigned activation_map cell_dist_tols = Inr a'"
    show "a' ! nat index \<and> \<not> activation_map ! nat index \<longleftrightarrow> activated"
    proof (cases activated)
      case False
      with r eq have "a' = activation_map" by simp
      with False assms(9) show ?thesis by auto
    next
      case True
      with r eq obtain a1 a2 a3 where
        "visit (0 < x) (\<lambda>a. growSeed pe (x - 1) y index unassigned a cell_dist_tols)
           (activation_map[nat index := True]) = Inr a1"
        "visit (x < nr_horizontal_cells pe - 1)
           (\<lambda>a. growSeed pe (x + 1) y index unassigned a cell_dist_tols) a1 = Inr a2"
        "visit (0 < y) (\<lambda>a. growSeed pe x (y - 1) index unassigned a cell_dist_tols) a2 = Inr a3"
        "visit (y < nr_vertical_cells pe - 1)
           (\<lambda>a. growSeed pe x (y + 1) index unassigned a cell_dist_tols) a3 = Inr a'"
        by (auto dest!: then_grow_Inr)
      then have "extends (activation_map[nat index := True]) a'"
        by (blast intro: extends_trans dest: visit_extends)
      then have "a' ! nat index" using assms(5) by (simp add: extends_def)
      with True assms(9) show ?thesis by simp
    qed
  qed
  with eq show ?thesis by (rule conjI)
qed

lemma strip_grow_left: "growSeed strip_extractor 0 0 1 [True, True] [False, True] [400, 400] = Inr [True, True]"
  by (simp add: growSeed.simps strip_extractor_def flat_cell_def default_config_def rejects_def
      cell_at_def nth_int_def dot_def Let_def)

theorem growSeed_activation_witness:
  "(1::int) = 1 + nr_horizontal_cells strip_extractor * 0 \<and>
   (0::int) \<le> 1 \<and> 1 < nr_total_cells strip_extractor \<and>
   nat 1 < length [True, True] \<and> nat 1 < length [False, False] \<and>
   cell_at strip_extractor 1 = Some flat_cell \<and>
   nth_int [400, 400 :: real] 1 = Some 400 \<and>
   (True \<longleftrightarrow> [True, True] ! nat 1 \<and> \<not> [False, False] ! nat 1 \<and>
      compatible flat_cell flat_cell (minCosAngleForMerge (pe_config strip_extractor)) 400) \<and>
   growSeed strip_extractor 1 0 1 [True, True] [False, False] [400, 400] = Inr [True, True]"
proof -
  have h: "(1::int) = 1 + nr_horizontal_cells strip_extractor * 0"
    "(0::int) \<le> 1" "1 < nr_total_cells strip_extractor"
    "nat 1 < length [True, True]" "nat 1 < length [False, False]"
    "cell_at strip_extractor 1 = Some flat_cell" "cell_at strip_extractor 1 = Some flat_cell"
    "nth_int [400, 400 :: real] 1 = Some 400"
    "True \<longleftrightarrow> [True, True] ! nat 1 \<and> \<not> [False, False] ! nat 1 \<and>
      compatible flat_cell flat_cell (minCosAngleForMerge (pe_config strip_extractor)) 400"
    by (simp_all add: strip_extractor_def cell_at_def nth_int_def compatible_def flat_cell_def
        default_config_def dot_def)
  have "growSeed strip_extractor 1 0 1 [True, True] [False, False] [400, 400] = Inr [True, True]"
    using growSeed_activation[OF h, THEN conjunct1]
    by (simp add: visit_def then_grow_def strip_grow_left, simp add: strip_extractor_def)
  with h show ?thesis by simp
qed

section \<open>The histogram of cell normals\<close>

text \<open>
  \<^verbatim>\<open>static_cast<int32_t>\<close> of a floating-point value truncates towards zero.
\<close>

definition trunc_int :: "real \<Rightarrow> int" where
  "trunc_int v = (if 0 \<le> v then \<lfloor>v\<rfloor> else \<lceil>v\<rceil>)"

record histogram =
  nr_bins_per_coord :: int
  nr_points :: int
  hist :: "int list"
  bins :: "int list"

text \<open>
  The set bits of a bitset in ascending order: the iteration
  \<^verbatim>\<open>for (i = b._Find_first(); i != b.size(); i = b._Find_next(i))\<close>.
\<close>

definition set_bits :: "bool list \<Rightarrow> nat list" where
  "set_bits bs = filter (\<lambda>i. bs ! i) [0..<length bs]"

text \<open>
  The quantisation in the body of the constructor's loop (lines 36-41 of \<^verbatim>\<open>histogram.cpp\<close>).
  The polar and the azimuth angle of a normal are results of \<^verbatim>\<open>acos\<close> and \<^verbatim>\<open>atan2\<close>. The
  constructor at hand computes them from the normals it is given, while
  \<^verbatim>\<open>initializeHistogram\<close> of \<^verbatim>\<open>plane_extractor.cpp\<close> computes them itself and passes them on;
  in the model the constructor takes the pair of angles of every point.
\<close>

definition bin_of :: "int \<Rightarrow> real \<times> real \<Rightarrow> int" where
  "bin_of nr_bins angles =
     (case angles of (polar_angle, azimuth_angle) \<Rightarrow>
        let min_X = 0; max_X = pi; min_Y = - pi; max_Y = pi;
            X_q = trunc_int (real_of_int (nr_bins - 1) * (polar_angle - min_X) / (max_X - min_X));
            Y_q = (if X_q > 0
                   then trunc_int (real_of_int (nr_bins - 1) * (azimuth_angle - min_Y) / (max_Y - min_Y))
                   else 0)
        in Y_q * nr_bins + X_q)"

definition add_point :: "(real \<times> real) list \<Rightarrow> nat \<Rightarrow> histogram \<Rightarrow> error + histogram" where
  "add_point angles i h =
     (if i \<ge> length angles \<or> i \<ge> length (bins h) then Inl UndefinedBehaviour
      else let bin = bin_of (nr_bins_per_coord h) (angles ! i) in
        if bin < 0 \<or> nat bin \<ge> length (hist h) then Inl UndefinedBehaviour
        else Inr (h\<lparr>bins := (bins h)[i := bin],
                     hist := (hist h)[nat bin := hist h ! nat bin + 1]\<rparr>))"

text \<open>Running a loop body over a list of indices, stopping at the first failure.\<close>

fun for_each :: "('i \<Rightarrow> 's \<Rightarrow> error + 's) \<Rightarrow> 'i list \<Rightarrow> 's \<Rightarrow> error + 's" where
  "for_each body [] s = Inr s"
| "for_each body (i # is) s = (case body i s of Inl e \<Rightarrow> Inl e | Inr s' \<Rightarrow> for_each body is s')"

definition Histogram :: "int \<Rightarrow> (real \<times> real) list \<Rightarrow> bool list \<Rightarrow> error + histogram" where
  "Histogram nr_bins angles msk =
     for_each (add_point angles) (set_bits msk)
       \<lparr>nr_bins_per_coord = nr_bins, nr_points = int (length angles),
        hist = replicate (nat (nr_bins * nr_bins)) 0,
        bins = replicate (length angles) (- 1)\<rparr>"

text \<open>\<^verbatim>\<open>std::max_element\<close>: the position of the first largest element of a non-empty list.\<close>

fun max_element :: "int list \<Rightarrow> nat" where
  "max_element [] = 0"
| "max_element [x] = 0"
| "max_element (x # y # ys) =
     (let k = max_element (y # ys) in if x < (y # ys) ! k then Suc k else 0)"

definition getPointsFromMostFrequentBin :: "histogram \<Rightarrow> error + int list" where
  "getPointsFromMostFrequentBin h =
     (if hist h = [] then Inl UndefinedBehaviour
      else let max_bin_id = max_element (hist h);
               max_nr_occurrences = hist h ! max_bin_id
           in if max_nr_occurrences > 0
              then if nr_points h > int (length (bins h)) then Inl UndefinedBehaviour
                   else Inr (filter (\<lambda>i. bins h ! nat i = int max_bin_id) (map int [0..<nat (nr_points h)]))
              else Inr [])"

definition removePoint :: "int \<Rightarrow> histogram \<Rightarrow> error + histogram" where
  "removePoint point_id h =
     (case nth_int (bins h) point_id of
        None \<Rightarrow> Inl UndefinedBehaviour
      | Some bin \<Rightarrow>
         (case nth_int (hist h) bin of
            None \<Rightarrow> Inl UndefinedBehaviour
          | Some n \<Rightarrow> Inr (h\<lparr>hist := (hist h)[nat bin := n - 1],
                              bins := (bins h)[nat point_id := - 1]\<rparr>)))"

section \<open>Region growing: \<^verbatim>\<open>createPlaneSegments\<close>\<close>

text \<open>
  The constructor of \<^verbatim>\<open>CellSegment\<close> and the operations that mutate a segment. Their
  implementation is not among the sources; they are parameters.
\<close>

record 'a cell_ops =
  make_cell :: "int \<Rightarrow> int \<Rightarrow> int \<Rightarrow> matrix \<Rightarrow> config \<Rightarrow> 'a cell_segment_scheme"
  seg_add :: "'a cell_segment_scheme \<Rightarrow> 'a cell_segment_scheme \<Rightarrow> 'a cell_segment_scheme"
  calculateStats :: "'a cell_segment_scheme \<Rightarrow> 'a cell_segment_scheme"

definition INT_MAX :: real where
  "INT_MAX = 2147483647"

text \<open>
  Lines 183-190: the loop that selects the seed. The state is the pair of \<^verbatim>\<open>seed_id\<close>, which
  is \<open>None\<close> as long as the variable is uninitialised, and \<^verbatim>\<open>min_mse\<close>.
\<close>

fun select_seed ::
  "'a plane_extractor \<Rightarrow> int list \<Rightarrow> int option \<times> real \<Rightarrow> error + int option \<times> real" where
  "select_seed pe [] s = Inr s"
| "select_seed pe (seed_candidate # cs) (seed_id, min_mse) =
     (case cell_at pe seed_candidate of
        None \<Rightarrow> Inl UndefinedBehaviour
      | Some c \<Rightarrow>
          if getMSE c < min_mse then select_seed pe cs (Some seed_candidate, getMSE c)
          else select_seed pe cs (seed_id, min_mse))"

text \<open>
  Steps 1 and 2 of an iteration. The result \<open>Inr None\<close> stands for the early
  \<^verbatim>\<open>return plane_segments\<close>. The comparison of \<^verbatim>\<open>seed_candidates.size()\<close> with the configured
  integer is unsigned in the source: a negative bound converts to a huge value and the
  function returns. Reading \<^verbatim>\<open>seed_id\<close> while it is uninitialised is undefined behaviour.
\<close>

definition choose_seed :: "'a plane_extractor \<Rightarrow> histogram \<Rightarrow> error + int option" where
  "choose_seed pe h =
     (case getPointsFromMostFrequentBin h of
        Inl e \<Rightarrow> Inl e
      | Inr seed_candidates \<Rightarrow>
          if minRegionGrowingCandidateSize (pe_config pe) < 0
             \<or> int (length seed_candidates) < minRegionGrowingCandidateSize (pe_config pe)
          then Inr None
          else (case select_seed pe seed_candidates (None, INT_MAX) of
                  Inl e \<Rightarrow> Inl e
                | Inr (None, _) \<Rightarrow> Inl UndefinedBehaviour
                | Inr (Some seed_id, _) \<Rightarrow> Inr (Some seed_id)))"

text \<open>Step 3: the flood from the seed, on an empty activation map.\<close>

definition grow_from ::
  "'a plane_extractor \<Rightarrow> int \<Rightarrow> bool list \<Rightarrow> real list \<Rightarrow> error + bool list" where
  "grow_from pe seed_id unassigned cell_dist_tols =
     (let y = seed_id sdiv nr_horizontal_cells pe;
          x = seed_id smod nr_horizontal_cells pe
      in growSeed pe x y seed_id unassigned (replicate (length unassigned) False) cell_dist_tols)"

text \<open>
  Step 4, the body of the loop over the activated cells: the cell is added to the segment
  (the segment is the seed's cell, mutated in place), removed from the histogram, and the
  counter of remaining cells is decremented.
\<close>

definition merge_cell ::
  "'a cell_ops \<Rightarrow> int \<Rightarrow> nat \<Rightarrow> 'a plane_extractor \<times> histogram \<times> int
     \<Rightarrow> error + 'a plane_extractor \<times> histogram \<times> int" where
  "merge_cell ops seed_id i s =
     (case s of (pe, h, remaining_planar_cells) \<Rightarrow>
        case (cell_at pe seed_id, cell_at pe (int i)) of
          (Some new_segment, Some c) \<Rightarrow>
            (case removePoint (int i) h of
               Inl e \<Rightarrow> Inl e
             | Inr h' \<Rightarrow>
                 Inr (pe\<lparr>cell_grid := (cell_grid pe)[nat seed_id := Some (seg_add ops new_segment c)]\<rparr>,
                      h', remaining_planar_cells - 1))
        | _ \<Rightarrow> Inl UndefinedBehaviour)"

text \<open>Lines 217-226: stamping the plane number into the cells of the activation map.\<close>

definition mark_cells :: "int \<Rightarrow> bool list \<Rightarrow> int \<Rightarrow> int list list \<Rightarrow> int list list" where
  "mark_cells W activation_map nr_curr_planes grid =
     map (\<lambda>row_id. map (\<lambda>col_id.
            if activation_map ! (row_id * nat W + col_id) then nr_curr_planes
            else grid ! row_id ! col_id)
          [0..<length (grid ! row_id)])
       [0..<length grid]"

record 'a grow_state =
  gs_pe :: "'a plane_extractor"
  gs_hist :: histogram
  unassigned_mask :: "bool list"
  remaining_planar_cells :: int
  plane_segments :: "int list"

datatype 'a step = Continue 'a | Return 'a

definition and_not :: "bool list \<Rightarrow> bool list \<Rightarrow> bool list" where
  "and_not a b = map (\<lambda>(x, y). x \<and> \<not> y) (zip a b)"

definition count_bits :: "bool list \<Rightarrow> nat" where
  "count_bits bs = length (filter id bs)"

text \<open>One iteration of the \<^verbatim>\<open>while\<close> loop.\<close>

definition grow_iteration ::
  "'a cell_ops \<Rightarrow> real list \<Rightarrow> 'a grow_state \<Rightarrow> error + 'a grow_state step" where
  "grow_iteration ops cell_dist_tols st =
     (case choose_seed (gs_pe st) (gs_hist st) of
        Inl e \<Rightarrow> Inl e
      | Inr None \<Rightarrow> Inr (Return st)
      | Inr (Some seed_id) \<Rightarrow>
     (case grow_from (gs_pe st) seed_id (unassigned_mask st) cell_dist_tols of
        Inl e \<Rightarrow> Inl e
      | Inr activation_map \<Rightarrow>
     (case for_each (merge_cell ops seed_id) (set_bits activation_map)
             (gs_pe st, gs_hist st, remaining_planar_cells st) of
        Inl e \<Rightarrow> Inl e
      | Inr (pe, h, remaining) \<Rightarrow>
         (let st1 = st\<lparr>gs_pe := pe, gs_hist := h, remaining_planar_cells := remaining,
                        unassigned_mask := and_not (unassigned_mask st) activation_map\<rparr>;
              nr_cells_activated = count_bits activation_map;
              cfg = pe_config pe
          in if minRegionGrowingCellsActivated cfg < 0
                \<or> int nr_cells_activated < minRegionGrowingCellsActivated cfg
             then Inr (Continue st1)
             else (case cell_at pe seed_id of
                     None \<Rightarrow> Inl UndefinedBehaviour
                   | Some new_segment \<Rightarrow>
                      (let seg = calculateStats ops new_segment;
                           pe1 = pe\<lparr>cell_grid := (cell_grid pe)[nat seed_id := Some seg]\<rparr>
                       in if getScore seg > minRegionPlanarityScore cfg
                          then (let segs = plane_segments st @ [seed_id];
                                    nr_curr_planes = int (length segs)
                                in Inr (Continue (st1\<lparr>gs_pe := pe1\<lparr>grid_plane_seg_map :=
                                           mark_cells (nr_horizontal_cells pe1) activation_map
                                             nr_curr_planes (grid_plane_seg_map pe1)\<rparr>,
                                         plane_segments := segs\<rparr>)))
                          else Inr (Continue (st1\<lparr>gs_pe := pe1\<rparr>))))))))"

partial_function (option) grow_loop ::
  "'a cell_ops \<Rightarrow> real list \<Rightarrow> 'a grow_state \<Rightarrow> (error + 'a grow_state) option" where
  "grow_loop ops cell_dist_tols st =
     (if remaining_planar_cells st > 0
      then (case grow_iteration ops cell_dist_tols st of
              Inl e \<Rightarrow> Some (Inl e)
            | Inr (Return st') \<Rightarrow> Some (Inr st')
            | Inr (Continue st') \<Rightarrow> grow_loop ops cell_dist_tols st')
      else Some (Inr st))"

text \<open>
  \<^verbatim>\<open>createPlaneSegments\<close>: the result is \<open>None\<close> when the loop does not terminate; otherwise
  it is the final state, whose \<open>plane_segments\<close> the source returns and whose extractor
  holds the stamped cell-label grid.
\<close>

definition createPlaneSegments ::
  "'a cell_ops \<Rightarrow> 'a plane_extractor \<Rightarrow> histogram \<Rightarrow> bool list \<Rightarrow> real list
     \<Rightarrow> (error + 'a grow_state) option" where
  "createPlaneSegments ops pe h planar_flags cell_dist_tols =
     grow_loop ops cell_dist_tols
       \<lparr>gs_pe = pe, gs_hist = h, unassigned_mask = planar_flags,
        remaining_planar_cells = int (count_bits planar_flags), plane_segments = []\<rparr>"

subsection \<open>Seed selection\<close>

lemma max_element_less: "xs \<noteq> [] \<Longrightarrow> max_element xs < length xs"
  by (induction xs rule: max_element.induct) (auto simp: Let_def)

lemma max_element_greatest:
  "b < length xs \<Longrightarrow> xs ! b \<le> xs ! max_element xs"
proof (induction xs arbitrary: b rule: max_element.induct)
  case 1
  then show ?case by simp
next
  case (2 x)
  then show ?case by simp
next
  case (3 x y ys)
  show ?case
  proof (cases b)
    case 0
    then show ?thesis by (simp add: Let_def)
  next
    case (Suc b')
    with "3.prems" have "(y # ys) ! b' \<le> (y # ys) ! max_element (y # ys)"
      by (intro "3.IH") simp_all
    with Suc show ?thesis by (simp add: Let_def)
  qed
qed

lemma max_element_first:
  "b < max_element xs \<Longrightarrow> xs ! b < xs ! max_element xs"
proof (induction xs arbitrary: b rule: max_element.induct)
  case 1
  then show ?case by simp
next
  case (2 x)
  then show ?case by simp
next
  case (3 x y ys)
  let ?k = "max_element (y # ys)"
  from "3.prems" have lt: "x < (y # ys) ! ?k" by (simp add: Let_def split: if_splits)
  show ?case
  proof (cases b)
    case 0
    with lt show ?thesis by (simp add: Let_def)
  next
    case (Suc b')
    with "3.prems" lt have "b' < ?k" by (simp add: Let_def)
    then have "(y # ys) ! b' < (y # ys) ! ?k" by (rule "3.IH")
    with Suc lt show ?thesis by (simp add: Let_def)
  qed
qed

definition cell_mse :: "'a plane_extractor \<Rightarrow> int \<Rightarrow> real" where
  "cell_mse pe c = (case cell_at pe c of Some cell \<Rightarrow> getMSE cell | None \<Rightarrow> 0)"

lemma select_seed_spec:
  assumes "\<forall>c \<in> set cs. cell_at pe c \<noteq> None"
  shows "\<exists>sid' m'. select_seed pe cs (sid, m) = Inr (sid', m') \<and>
           m' \<le> m \<and> (\<forall>c \<in> set cs. m' \<le> cell_mse pe c) \<and>
           (if \<exists>c \<in> set cs. cell_mse pe c < m
            then \<exists>k < length cs. sid' = Some (cs ! k) \<and> cell_mse pe (cs ! k) = m' \<and>
                   (\<forall>j < k. m' < cell_mse pe (cs ! j))
            else sid' = sid \<and> m' = m)"
  using assms
proof (induction cs arbitrary: sid m)
  case Nil
  then show ?case by simp
next
  case (Cons c cs)
  from Cons.prems obtain cell where cell: "cell_at pe c = Some cell" by auto
  then have mse: "cell_mse pe c = getMSE cell" by (simp add: cell_mse_def)
  from Cons.prems have rest: "\<forall>c \<in> set cs. cell_at pe c \<noteq> None" by simp
  show ?case
  proof (cases "getMSE cell < m")
    case True
    from Cons.IH[OF rest, of "Some c" "getMSE cell"] obtain sid' m' where
      r: "select_seed pe cs (Some c, getMSE cell) = Inr (sid', m')"
      and le: "m' \<le> getMSE cell" "\<forall>c \<in> set cs. m' \<le> cell_mse pe c"
      and pos: "if \<exists>c \<in> set cs. cell_mse pe c < getMSE cell
            then \<exists>k < length cs. sid' = Some (cs ! k) \<and> cell_mse pe (cs ! k) = m' \<and>
                   (\<forall>j < k. m' < cell_mse pe (cs ! j))
            else sid' = Some c \<and> m' = getMSE cell"
      by blast
    have "\<exists>k < length (c # cs). sid' = Some ((c # cs) ! k) \<and> cell_mse pe ((c # cs) ! k) = m' \<and>
                   (\<forall>j < k. m' < cell_mse pe ((c # cs) ! j))"
    proof (cases "\<exists>c \<in> set cs. cell_mse pe c < getMSE cell")
      case True
      with pos obtain k where k: "k < length cs" "sid' = Some (cs ! k)" "cell_mse pe (cs ! k) = m'"
        "\<forall>j < k. m' < cell_mse pe (cs ! j)" by auto
      from True obtain c' where c': "c' \<in> set cs" "cell_mse pe c' < getMSE cell" by blast
      with le(2) have "m' \<le> cell_mse pe c'" by simp
      with c' have "m' < getMSE cell" by linarith
      with k mse have "\<forall>j < Suc k. m' < cell_mse pe ((c # cs) ! j)"
        by (auto simp: less_Suc_eq_0_disj)
      with k show ?thesis by (intro exI[of _ "Suc k"]) simp
    next
      case False
      with pos mse show ?thesis by (intro exI[of _ 0]) simp
    qed
    moreover have "\<exists>c' \<in> set (c # cs). cell_mse pe c' < m" using True mse by simp
    moreover have "\<forall>c' \<in> set (c # cs). m' \<le> cell_mse pe c'" using le mse by simp
    moreover have "select_seed pe (c # cs) (sid, m) = Inr (sid', m')" using True r cell by simp
    moreover have "m' \<le> m" using le True by simp
    ultimately show ?thesis by (intro exI[of _ sid'] exI[of _ m']) (simp only: if_True simp_thms)
  next
    case False
    from Cons.IH[OF rest, of sid m] obtain sid' m' where
      r: "select_seed pe cs (sid, m) = Inr (sid', m')"
      and le: "m' \<le> m" "\<forall>c \<in> set cs. m' \<le> cell_mse pe c"
      and pos: "if \<exists>c \<in> set cs. cell_mse pe c < m
            then \<exists>k < length cs. sid' = Some (cs ! k) \<and> cell_mse pe (cs ! k) = m' \<and>
                   (\<forall>j < k. m' < cell_mse pe (cs ! j))
            else sid' = sid \<and> m' = m"
      by blast
    show ?thesis
    proof (cases "\<exists>c \<in> set cs. cell_mse pe c < m")
      case True
      with pos obtain k where k: "k < length cs" "sid' = Some (cs ! k)" "cell_mse pe (cs ! k) = m'"
        "\<forall>j < k. m' < cell_mse pe (cs ! j)" by auto
      from True obtain c' where c': "c' \<in> set cs" "cell_mse pe c' < m" by blast
      with le(2) have "m' \<le> cell_mse pe c'" by simp
      with c' have "m' < m" by linarith
      with False k mse have "\<forall>j < Suc k. m' < cell_mse pe ((c # cs) ! j)"
        by (auto simp: less_Suc_eq_0_disj)
      with k have "\<exists>k < length (c # cs). sid' = Some ((c # cs) ! k) \<and> cell_mse pe ((c # cs) ! k) = m' \<and>
                   (\<forall>j < k. m' < cell_mse pe ((c # cs) ! j))"
        by (intro exI[of _ "Suc k"]) simp
      moreover have "\<exists>c' \<in> set (c # cs). cell_mse pe c' < m" using True by auto
      moreover have "\<forall>c' \<in> set (c # cs). m' \<le> cell_mse pe c'" using le mse False by simp
      moreover have "select_seed pe (c # cs) (sid, m) = Inr (sid', m')" using False r cell by simp
      ultimately show ?thesis using le(1)
        by (intro exI[of _ sid'] exI[of _ m']) (simp only: if_True simp_thms)
    next
      case F2: False
      with pos have e: "sid' = sid" "m' = m" by simp_all
      have "\<not> (\<exists>c' \<in> set (c # cs). cell_mse pe c' < m)" using F2 False mse by simp
      moreover have "\<forall>c' \<in> set (c # cs). m' \<le> cell_mse pe c'" using le mse False by simp
      moreover have "select_seed pe (c # cs) (sid, m) = Inr (sid', m')" using False r cell by simp
      ultimately show ?thesis using e
        by (intro exI[of _ sid'] exI[of _ m']) (simp only: if_False simp_thms order_refl)
    qed
  qed
qed


lemma candidates_sorted:
  assumes "getPointsFromMostFrequentBin h = Inr cands"
  shows "sorted_wrt (<) cands"
proof -
  have "sorted_wrt (<) (map int [0..<n])" for n
    by (simp add: sorted_wrt_map)
  then have "sorted_wrt (<) (filter P (map int [0..<n]))" for P n
    by (rule sorted_wrt_filter)
  with assms show ?thesis
    by (auto simp: getPointsFromMostFrequentBin_def Let_def split: if_splits)
qed

lemma candidates_bin:
  assumes "getPointsFromMostFrequentBin h = Inr cands" and "c \<in> set cands"
  shows "bins h ! nat c = int (max_element (hist h))" and "0 \<le> c" and "c < nr_points h"
    and "0 < hist h ! max_element (hist h)"
  using assms by (auto simp: getPointsFromMostFrequentBin_def Let_def split: if_splits)

text \<open>
  Where the loop selects: if some candidate of the most populous bin has a mean squared error
  below the initial value of \<^verbatim>\<open>min_mse\<close>, the seed is a candidate of smallest error, and the one
  of smallest cell index among those; the candidates are the cells of the first fullest bin
  in ascending order.
\<close>

lemma seed_is_first_minimum:
  assumes "getPointsFromMostFrequentBin h = Inr seed_candidates"
    and "\<forall>c \<in> set seed_candidates. cell_at pe c \<noteq> None"
    and "0 \<le> minRegionGrowingCandidateSize (pe_config pe)"
    and "minRegionGrowingCandidateSize (pe_config pe) \<le> int (length seed_candidates)"
    and "\<exists>c \<in> set seed_candidates. cell_mse pe c < INT_MAX"
  shows "\<exists>seed_id. choose_seed pe h = Inr (Some seed_id) \<and> seed_id \<in> set seed_candidates \<and>
           (\<forall>c \<in> set seed_candidates. cell_mse pe seed_id \<le> cell_mse pe c) \<and>
           (\<forall>c \<in> set seed_candidates. cell_mse pe c = cell_mse pe seed_id \<longrightarrow> seed_id \<le> c) \<and>
           sorted_wrt (<) seed_candidates \<and>
           (\<forall>c \<in> set seed_candidates. bins h ! nat c = int (max_element (hist h))) \<and>
           (\<forall>b < length (hist h). hist h ! b \<le> hist h ! max_element (hist h))"
proof -
  let ?cs = seed_candidates
  from select_seed_spec[OF assms(2), of None INT_MAX] assms(5)
  obtain sid' m' k where r: "select_seed pe ?cs (None, INT_MAX) = Inr (sid', m')"
    and le: "\<forall>c \<in> set ?cs. m' \<le> cell_mse pe c"
    and k: "k < length ?cs" "sid' = Some (?cs ! k)" "cell_mse pe (?cs ! k) = m'"
      "\<forall>j < k. m' < cell_mse pe (?cs ! j)"
    by (auto split: if_splits)
  have srt: "sorted_wrt (<) ?cs" using assms(1) by (rule candidates_sorted)
  have first: "?cs ! k \<le> c" if "c \<in> set ?cs" "cell_mse pe c = cell_mse pe (?cs ! k)" for c
  proof -
    from that(1) obtain j where j: "j < length ?cs" "c = ?cs ! j" by (auto simp: in_set_conv_nth)
    with that(2) k(3,4) have "\<not> j < k" by auto
    then have "k = j \<or> k < j" by auto
    with srt j show ?thesis by (auto dest: sorted_wrt_nth_less)
  qed
  have "choose_seed pe h = Inr (Some (?cs ! k))"
    using assms(1,3,4) r k(2) by (simp add: choose_seed_def)
  moreover have "?cs ! k \<in> set ?cs" using k(1) by simp
  moreover have "\<forall>c \<in> set ?cs. cell_mse pe (?cs ! k) \<le> cell_mse pe c" using le k(3) by simp
  moreover have "\<forall>c \<in> set ?cs. bins h ! nat c = int (max_element (hist h))"
    using candidates_bin(1)[OF assms(1)] by blast
  moreover have "\<forall>b < length (hist h). hist h ! b \<le> hist h ! max_element (hist h)"
    by (simp add: max_element_greatest)
  ultimately show ?thesis using srt first by blast
qed

subsection \<open>A concrete iteration: two cells in one bin\<close>

definition far_cell :: cell_segment where
  "far_cell = \<lparr>getNormal = (0, 0, -1), getMean = (0, 0, 1000), getD = 1000, getMSE = 3000000000,
     getScore = 100, isPlanar = True\<rparr>"

definition pair_config :: config where
  "pair_config = default_config\<lparr>minRegionGrowingCandidateSize := 2,
     minRegionGrowingCellsActivated := 1\<rparr>"

definition pair_extractor :: "cell_segment \<Rightarrow> cell_segment \<Rightarrow> unit plane_extractor" where
  "pair_extractor c0 c1 = strip_extractor\<lparr>pe_config := pair_config, cell_grid := [Some c0, Some c1]\<rparr>"

definition pair_histogram :: histogram where
  "pair_histogram = \<lparr>nr_bins_per_coord = 1, nr_points = 2, hist = [2], bins = [0, 0]\<rparr>"

lemma pair_candidates: "getPointsFromMostFrequentBin pair_histogram = Inr [0, 1]"
  by (simp add: getPointsFromMostFrequentBin_def pair_histogram_def Let_def upt_rec)

lemma seed_is_first_minimum_pair:
  "getPointsFromMostFrequentBin pair_histogram = Inr [0, 1] \<and>
   cell_mse (pair_extractor flat_cell flat_cell) 0 = 1 \<and>
   cell_mse (pair_extractor flat_cell flat_cell) 1 = 1 \<and>
   choose_seed (pair_extractor flat_cell flat_cell) pair_histogram = Inr (Some 0)"
proof -
  let ?pe = "pair_extractor flat_cell flat_cell"
  have h: "\<forall>c \<in> set [0, 1]. cell_at ?pe c \<noteq> None"
    "0 \<le> minRegionGrowingCandidateSize (pe_config ?pe)"
    "minRegionGrowingCandidateSize (pe_config ?pe) \<le> int (length [0, 1 :: int])"
    "\<exists>c \<in> set [0, 1]. cell_mse ?pe c < INT_MAX"
    by (simp_all add: pair_extractor_def pair_config_def default_config_def cell_at_def nth_int_def
        cell_mse_def flat_cell_def INT_MAX_def)
  have m: "cell_mse ?pe 0 = 1" "cell_mse ?pe 1 = 1"
    by (simp_all add: pair_extractor_def cell_at_def nth_int_def cell_mse_def flat_cell_def)
  from seed_is_first_minimum[OF pair_candidates h]
  obtain s where s: "choose_seed ?pe pair_histogram = Inr (Some s)" "s \<in> set [0, 1]"
    "\<forall>c \<in> set [0, 1]. cell_mse ?pe c = cell_mse ?pe s \<longrightarrow> s \<le> c"
    by blast
  from s(2,3) m have "s = 0" by auto
  with s(1) m pair_candidates show ?thesis by simp
qed

text \<open>
  Claim C7 fails on the code. The loop is meant to select the candidate of smallest mean
  squared error, but \<^verbatim>\<open>min_mse\<close> starts at \<^verbatim>\<open>INT_MAX\<close> instead of the error of the first
  candidate, and \<^verbatim>\<open>seed_id\<close> has no initial value. With two candidates whose error is 3000000000
  the comparison \<^verbatim>\<open>getMSE() < min_mse\<close> fails for both, no candidate is selected, and the next
  statement reads the uninitialised \<^verbatim>\<open>seed_id\<close> as an index into the cell grid. The claim
  requires the seed to be the cell 0, the candidate of smallest index among those of smallest
  error.
\<close>

theorem seed_never_assigned:
  "getPointsFromMostFrequentBin pair_histogram = Inr [0, 1] \<and>
   select_seed (pair_extractor far_cell far_cell) [0, 1] (None, INT_MAX) = Inr (None, INT_MAX) \<and>
   cell_mse (pair_extractor far_cell far_cell) 0 = 3000000000 \<and>
   cell_mse (pair_extractor far_cell far_cell) 1 = 3000000000 \<and>
   choose_seed (pair_extractor far_cell far_cell) pair_histogram = Inl UndefinedBehaviour"
  by (simp add: pair_candidates choose_seed_def pair_extractor_def pair_config_def
      default_config_def cell_at_def nth_int_def cell_mse_def far_cell_def INT_MAX_def)

subsection \<open>The invariant of the histogram\<close>

definition members :: "bool list \<Rightarrow> nat set" where
  "members bs = {i. i < length bs \<and> bs ! i}"

lemma set_set_bits: "set (set_bits bs) = members bs"
  by (auto simp: set_bits_def members_def)

lemma distinct_set_bits: "distinct (set_bits bs)"
  by (simp add: set_bits_def)

text \<open>
  The invariant as the specification states it, for the set \<open>S\<close> of the cells currently in
  the histogram: \<open>bins[i] = -1\<close> iff \<open>i\<close> is not in the histogram, and otherwise \<open>bins[i]\<close>
  is the bin of the cell and that bin of \<open>hist\<close> is positive.
\<close>

definition hist_invariant :: "(real \<times> real) list \<Rightarrow> nat set \<Rightarrow> histogram \<Rightarrow> bool" where
  "hist_invariant angles S h \<longleftrightarrow>
     (\<forall>i < length (bins h).
        (bins h ! i = - 1 \<longleftrightarrow> i \<notin> S) \<and>
        (i \<in> S \<longrightarrow> bins h ! i = bin_of (nr_bins_per_coord h) (angles ! i) \<and>
           (\<exists>n. nth_int (hist h) (bins h ! i) = Some n \<and> 0 < n)))"

text \<open>The invariant used in the proofs: every bin of \<open>hist\<close> counts its cells.\<close>

definition hist_sound :: "(real \<times> real) list \<Rightarrow> nat set \<Rightarrow> histogram \<Rightarrow> bool" where
  "hist_sound angles S h \<longleftrightarrow>
     length (bins h) = length angles \<and>
     (\<forall>i < length angles.
        bins h ! i = (if i \<in> S then bin_of (nr_bins_per_coord h) (angles ! i) else - 1)) \<and>
     (\<forall>i \<in> S. i < length angles \<and> 0 \<le> bin_of (nr_bins_per_coord h) (angles ! i) \<and>
        nat (bin_of (nr_bins_per_coord h) (angles ! i)) < length (hist h)) \<and>
     (\<forall>b < length (hist h). hist h ! b = int (count_list (bins h) (int b)))"

lemma count_list_update:
  "i < length xs \<Longrightarrow>
   int (count_list (xs[i := v]) x) =
     int (count_list xs x) - (if xs ! i = x then 1 else 0) + (if v = x then 1 else 0)"
proof (induction xs arbitrary: i)
  case Nil
  then show ?case by simp
next
  case (Cons a xs)
  show ?case
  proof (cases i)
    case 0
    then show ?thesis by simp
  next
    case (Suc j)
    with Cons.prems have "j < length xs" by simp
    from Cons.IH[OF this] Suc show ?thesis
      by (cases "xs ! j = x"; cases "v = x"; cases "a = x"; simp)
  qed
qed

lemma count_list_pos: "i < length xs \<Longrightarrow> xs ! i = x \<Longrightarrow> 0 < count_list xs x"
  by (metis count_list_0_iff nth_mem not_gr_zero)

lemma hist_sound_invariant:
  assumes "hist_sound angles S h"
  shows "hist_invariant angles S h"
  unfolding hist_invariant_def
proof (intro allI impI conjI)
  fix i assume i: "i < length (bins h)"
  with assms have il: "i < length angles" by (simp add: hist_sound_def)
  with assms have b: "bins h ! i = (if i \<in> S then bin_of (nr_bins_per_coord h) (angles ! i) else - 1)"
    by (simp add: hist_sound_def)
  from assms have r: "i \<in> S \<Longrightarrow> 0 \<le> bin_of (nr_bins_per_coord h) (angles ! i) \<and>
        nat (bin_of (nr_bins_per_coord h) (angles ! i)) < length (hist h)"
    by (simp add: hist_sound_def)
  show "bins h ! i = - 1 \<longleftrightarrow> i \<notin> S" using b r by auto
  assume s: "i \<in> S"
  with b show "bins h ! i = bin_of (nr_bins_per_coord h) (angles ! i)" by simp
  let ?b = "bins h ! i"
  from s b r have br: "0 \<le> ?b" "nat ?b < length (hist h)" by auto
  with assms have "hist h ! nat ?b = int (count_list (bins h) (int (nat ?b)))"
    by (simp add: hist_sound_def)
  moreover have "0 < count_list (bins h) ?b" using i by (rule count_list_pos) simp
  ultimately show "\<exists>n. nth_int (hist h) ?b = Some n \<and> 0 < n"
    using br by (simp add: nth_int_def)
qed

lemma removePoint_sound:
  assumes "hist_sound angles S h" and "i \<in> S"
  shows "\<exists>h'. removePoint (int i) h = Inr h' \<and> hist_sound angles (S - {i}) h'"
proof -
  let ?B = "nr_bins_per_coord h"
  let ?b = "bin_of ?B (angles ! i)"
  from assms have i: "i < length angles" "length (bins h) = length angles"
    and b: "bins h ! i = ?b" "0 \<le> ?b" "nat ?b < length (hist h)"
    by (auto simp: hist_sound_def)
  define h' where "h' = h\<lparr>hist := (hist h)[nat ?b := hist h ! nat ?b - 1],
                          bins := (bins h)[i := - 1]\<rparr>"
  have r: "removePoint (int i) h = Inr h'"
    using i b by (simp add: removePoint_def nth_int_def h'_def)
  have cnt: "hist h' ! c = int (count_list (bins h') (int c))" if "c < length (hist h')" for c
  proof -
    from that have c: "c < length (hist h)" by (simp add: h'_def)
    with assms have old: "hist h ! c = int (count_list (bins h) (int c))"
      by (simp add: hist_sound_def)
    have "int (count_list (bins h') (int c)) =
          int (count_list (bins h) (int c)) - (if ?b = int c then 1 else 0)"
      using count_list_update[of i "bins h" "- 1" "int c"] i b by (simp add: h'_def)
    moreover have "hist h' ! c = hist h ! c - (if nat ?b = c then 1 else 0)"
      using c b by (simp add: h'_def nth_list_update)
    moreover have "nat ?b = c \<longleftrightarrow> ?b = int c" using b by auto
    ultimately show ?thesis using old by simp
  qed
  have "hist_sound angles (S - {i}) h'"
    unfolding hist_sound_def
  proof (intro conjI allI impI ballI)
    show "length (bins h') = length angles" using i by (simp add: h'_def)
    show "bins h' ! j = (if j \<in> S - {i} then bin_of (nr_bins_per_coord h') (angles ! j) else - 1)"
      if "j < length angles" for j
      using that assms(1) i by (simp add: h'_def hist_sound_def nth_list_update)
    show "j < length angles" if "j \<in> S - {i}" for j
      using that assms(1) by (simp add: hist_sound_def)
    show "0 \<le> bin_of (nr_bins_per_coord h') (angles ! j)" if "j \<in> S - {i}" for j
      using that assms(1) by (simp add: hist_sound_def h'_def)
    show "nat (bin_of (nr_bins_per_coord h') (angles ! j)) < length (hist h')" if "j \<in> S - {i}" for j
      using that assms(1) by (simp add: hist_sound_def h'_def)
    show "hist h' ! c = int (count_list (bins h') (int c))" if "c < length (hist h')" for c
      using that by (rule cnt)
  qed
  with r show ?thesis by blast
qed

lemma remove_points_sound:
  assumes "hist_sound angles S h" and "set is \<subseteq> S" and "distinct is"
  shows "\<exists>h'. for_each (\<lambda>i. removePoint (int i)) is h = Inr h' \<and> hist_sound angles (S - set is) h'"
  using assms
proof (induction "is" arbitrary: S h)
  case Nil
  then show ?case by simp
next
  case (Cons i "is")
  from Cons.prems removePoint_sound[of angles S h i] obtain h1 where
    h1: "removePoint (int i) h = Inr h1" "hist_sound angles (S - {i}) h1" by auto
  from Cons.prems have "set is \<subseteq> S - {i}" "distinct is" by auto
  from Cons.IH[OF h1(2) this] obtain h' where
    "for_each (\<lambda>i. removePoint (int i)) is h1 = Inr h'" "hist_sound angles (S - {i} - set is) h'"
    by blast
  moreover have "S - {i} - set is = S - set (i # is)" by auto
  ultimately show ?case using h1(1) by simp
qed


lemma trunc_int_range:
  assumes "0 \<le> v" and "v \<le> real_of_int n"
  shows "0 \<le> trunc_int v" and "trunc_int v \<le> n"
proof -
  from assms(1) have t: "trunc_int v = \<lfloor>v\<rfloor>" by (simp add: trunc_int_def)
  from assms(1) show "0 \<le> trunc_int v" by (simp add: t)
  from assms(2) have "\<lfloor>v\<rfloor> \<le> \<lfloor>real_of_int n\<rfloor>" by (rule floor_mono)
  then show "trunc_int v \<le> n" by (simp add: t)
qed

lemma bin_of_range:
  assumes B: "1 \<le> B" and p: "0 \<le> polar_angle" "polar_angle \<le> pi"
    and a: "- pi \<le> azimuth_angle" "azimuth_angle \<le> pi"
  shows "0 \<le> bin_of B (polar_angle, azimuth_angle)"
    and "nat (bin_of B (polar_angle, azimuth_angle)) < nat (B * B)"
proof -
  define X where "X = trunc_int (real_of_int (B - 1) * (polar_angle - 0) / (pi - 0))"
  define Y where "Y = trunc_int (real_of_int (B - 1) * (azimuth_angle - (- pi)) / (pi - (- pi)))"
  have n: "0 \<le> real_of_int (B - 1)" using B by simp
  have "real_of_int (B - 1) * polar_angle \<le> real_of_int (B - 1) * pi"
    using n p by (intro mult_left_mono) auto
  then have x2: "real_of_int (B - 1) * (polar_angle - 0) / (pi - 0) \<le> real_of_int (B - 1)"
    by (simp add: field_simps)
  have x1: "0 \<le> real_of_int (B - 1) * (polar_angle - 0) / (pi - 0)"
    using n p by simp
  have "real_of_int (B - 1) * (azimuth_angle + pi) \<le> real_of_int (B - 1) * (pi + pi)"
    using n a by (intro mult_left_mono) auto
  then have y2: "real_of_int (B - 1) * (azimuth_angle - (- pi)) / (pi - (- pi)) \<le> real_of_int (B - 1)"
    by (simp add: field_simps)
  have y1: "0 \<le> real_of_int (B - 1) * (azimuth_angle - (- pi)) / (pi - (- pi))"
    using n a by simp
  have X: "0 \<le> X" "X \<le> B - 1"
    using trunc_int_range[OF x1 x2] by (simp_all add: X_def)
  have Y: "0 \<le> Y" "Y \<le> B - 1"
    using trunc_int_range[OF y1 y2] by (simp_all add: Y_def)
  define Y' where "Y' = (if X > 0 then Y else 0)"
  have Y': "0 \<le> Y'" "Y' \<le> B - 1" using Y B by (simp_all add: Y'_def)
  have eq: "bin_of B (polar_angle, azimuth_angle) = Y' * B + X"
    by (simp add: bin_of_def Let_def X_def Y_def Y'_def)
  have "0 \<le> Y' * B" using Y' B by simp
  with X show "0 \<le> bin_of B (polar_angle, azimuth_angle)" by (simp add: eq)
  have "Y' * B \<le> (B - 1) * B" using Y' B by (intro mult_right_mono) auto
  with X have "Y' * B + X < B * B" by (simp add: algebra_simps)
  then show "nat (bin_of B (polar_angle, azimuth_angle)) < nat (B * B)"
    using \<open>0 \<le> Y' * B\<close> X by (simp add: eq)
qed

lemma add_point_sound:
  assumes "hist_sound angles S h" and "i \<notin> S" and "i < length angles"
    and "0 \<le> bin_of (nr_bins_per_coord h) (angles ! i)"
    and "nat (bin_of (nr_bins_per_coord h) (angles ! i)) < length (hist h)"
  shows "\<exists>h'. add_point angles i h = Inr h' \<and> hist_sound angles (insert i S) h' \<and>
           nr_bins_per_coord h' = nr_bins_per_coord h \<and> length (hist h') = length (hist h)"
proof -
  let ?b = "bin_of (nr_bins_per_coord h) (angles ! i)"
  from assms have i: "i < length angles" "length (bins h) = length angles"
    and old: "bins h ! i = - 1" and b: "0 \<le> ?b" "nat ?b < length (hist h)"
    by (auto simp: hist_sound_def)
  define h' where "h' = h\<lparr>bins := (bins h)[i := ?b],
                          hist := (hist h)[nat ?b := hist h ! nat ?b + 1]\<rparr>"
  have r: "add_point angles i h = Inr h'"
    using i b by (simp add: add_point_def Let_def h'_def)
  have cnt: "hist h' ! c = int (count_list (bins h') (int c))" if "c < length (hist h')" for c
  proof -
    from that have c: "c < length (hist h)" by (simp add: h'_def)
    with assms have o: "hist h ! c = int (count_list (bins h) (int c))"
      by (simp add: hist_sound_def)
    have "int (count_list (bins h') (int c)) =
          int (count_list (bins h) (int c)) + (if ?b = int c then 1 else 0)"
      using count_list_update[of i "bins h" ?b "int c"] i old by (simp add: h'_def)
    moreover have "hist h' ! c = hist h ! c + (if nat ?b = c then 1 else 0)"
      using c b by (simp add: h'_def nth_list_update)
    moreover have "nat ?b = c \<longleftrightarrow> ?b = int c" using b by auto
    ultimately show ?thesis using o by simp
  qed
  have "hist_sound angles (insert i S) h'"
    unfolding hist_sound_def
  proof (intro conjI allI impI ballI)
    show "length (bins h') = length angles" using i by (simp add: h'_def)
    show "bins h' ! j = (if j \<in> insert i S then bin_of (nr_bins_per_coord h') (angles ! j) else - 1)"
      if "j < length angles" for j
      using that assms(1) i by (simp add: h'_def hist_sound_def nth_list_update)
    show "j < length angles" if "j \<in> insert i S" for j
      using that assms(1) i by (auto simp: hist_sound_def)
    show "0 \<le> bin_of (nr_bins_per_coord h') (angles ! j)" if "j \<in> insert i S" for j
      using that assms(1) b by (auto simp: hist_sound_def h'_def)
    show "nat (bin_of (nr_bins_per_coord h') (angles ! j)) < length (hist h')" if "j \<in> insert i S" for j
      using that assms(1) b by (auto simp: hist_sound_def h'_def)
    show "hist h' ! c = int (count_list (bins h') (int c))" if "c < length (hist h')" for c
      using that by (rule cnt)
  qed
  with r show ?thesis by (auto simp: h'_def)
qed

lemma add_points_sound:
  assumes "hist_sound angles S h" and "distinct is" and "set is \<inter> S = {}"
    and "\<forall>i \<in> set is. i < length angles \<and> 0 \<le> bin_of (nr_bins_per_coord h) (angles ! i) \<and>
           nat (bin_of (nr_bins_per_coord h) (angles ! i)) < length (hist h)"
  shows "\<exists>h'. for_each (add_point angles) is h = Inr h' \<and> hist_sound angles (S \<union> set is) h' \<and>
           nr_bins_per_coord h' = nr_bins_per_coord h"
  using assms
proof (induction "is" arbitrary: S h)
  case Nil
  then show ?case by simp
next
  case (Cons i "is")
  from Cons.prems add_point_sound[of angles S h i] obtain h1 where
    h1: "add_point angles i h = Inr h1" "hist_sound angles (insert i S) h1"
      "nr_bins_per_coord h1 = nr_bins_per_coord h" "length (hist h1) = length (hist h)"
    by auto
  from Cons.prems have "distinct is" "set is \<inter> insert i S = {}" by auto
  moreover from Cons.prems h1(3,4) have
    "\<forall>i \<in> set is. i < length angles \<and> 0 \<le> bin_of (nr_bins_per_coord h1) (angles ! i) \<and>
           nat (bin_of (nr_bins_per_coord h1) (angles ! i)) < length (hist h1)" by simp
  ultimately obtain h' where
    "for_each (add_point angles) is h1 = Inr h'" "hist_sound angles (insert i S \<union> set is) h'"
    "nr_bins_per_coord h' = nr_bins_per_coord h1"
    using Cons.IH[OF h1(2)] by blast
  moreover have "insert i S \<union> set is = S \<union> set (i # is)" by auto
  ultimately show ?case using h1(1,3) by simp
qed

text \<open>
  The angles of the cells of a mask are in the ranges of \<^verbatim>\<open>acos\<close> and \<^verbatim>\<open>atan2\<close>.
\<close>

definition angles_in_range :: "(real \<times> real) list \<Rightarrow> bool list \<Rightarrow> bool" where
  "angles_in_range angles msk \<longleftrightarrow>
     (\<forall>i \<in> members msk. i < length angles \<and>
        0 \<le> fst (angles ! i) \<and> fst (angles ! i) \<le> pi \<and>
        - pi \<le> snd (angles ! i) \<and> snd (angles ! i) \<le> pi)"

lemma Histogram_sound:
  assumes "1 \<le> B" and "angles_in_range angles msk"
  shows "\<exists>h. Histogram B angles msk = Inr h \<and> hist_sound angles (members msk) h"
proof -
  define h0 where "h0 = \<lparr>nr_bins_per_coord = B, nr_points = int (length angles),
        hist = replicate (nat (B * B)) 0, bins = replicate (length angles) (- 1)\<rparr>"
  have "count_list (replicate n (- 1 :: int)) (int b) = 0" for n b
    by (induction n) simp_all
  then have s0: "hist_sound angles {} h0"
    by (simp add: hist_sound_def h0_def)
  have "\<forall>i \<in> set (set_bits msk). i < length angles \<and> 0 \<le> bin_of (nr_bins_per_coord h0) (angles ! i) \<and>
           nat (bin_of (nr_bins_per_coord h0) (angles ! i)) < length (hist h0)"
  proof
    fix i assume "i \<in> set (set_bits msk)"
    with assms(2) have i: "i < length angles" "0 \<le> fst (angles ! i)" "fst (angles ! i) \<le> pi"
        "- pi \<le> snd (angles ! i)" "snd (angles ! i) \<le> pi"
      by (simp_all add: angles_in_range_def set_set_bits)
    from bin_of_range[OF assms(1) i(2-5)] i(1)
    show "i < length angles \<and> 0 \<le> bin_of (nr_bins_per_coord h0) (angles ! i) \<and>
           nat (bin_of (nr_bins_per_coord h0) (angles ! i)) < length (hist h0)"
      by (simp add: h0_def)
  qed
  from add_points_sound[OF s0 distinct_set_bits _ this]
  show ?thesis by (auto simp: Histogram_def h0_def set_set_bits)
qed


lemma for_each_merge_hist:
  "for_each (merge_cell ops seed_id) is (pe, h, r) = Inr (pe', h', r') \<Longrightarrow>
   for_each (\<lambda>i. removePoint (int i)) is h = Inr h'"
proof (induction "is" arbitrary: pe h r)
  case Nil
  then show ?case by simp
next
  case (Cons i "is")
  from Cons.prems obtain pe1 h1 r1 where
    m: "merge_cell ops seed_id i (pe, h, r) = Inr (pe1, h1, r1)"
    and f: "for_each (merge_cell ops seed_id) is (pe1, h1, r1) = Inr (pe', h', r')"
    by (auto split: sum.splits)
  from m have "removePoint (int i) h = Inr h1"
    by (auto simp: merge_cell_def split: option.splits sum.splits)
  with Cons.IH[OF f] show ?case by simp
qed

lemma grow_from_members:
  assumes "grow_from pe seed_id unassigned cell_dist_tols = Inr activation_map"
  shows "length activation_map = length unassigned"
    and "members activation_map \<subseteq> members unassigned"
proof -
  from assms have "grown unassigned (replicate (length unassigned) False) activation_map"
    unfolding grow_from_def Let_def by (rule growSeed_grown)
  then show "length activation_map = length unassigned"
    and "members activation_map \<subseteq> members unassigned"
    by (auto simp: grown_def extends_def members_def)
qed

lemma members_and_not:
  "length a = length u \<Longrightarrow> members (and_not u a) = members u - members a"
  by (auto simp: members_def and_not_def)

lemma grow_iteration_hist:
  assumes "grow_iteration ops cell_dist_tols st = Inr (Continue st')"
  shows "\<exists>seed_id activation_map.
           grow_from (gs_pe st) seed_id (unassigned_mask st) cell_dist_tols = Inr activation_map \<and>
           for_each (\<lambda>i. removePoint (int i)) (set_bits activation_map) (gs_hist st)
             = Inr (gs_hist st') \<and>
           unassigned_mask st' = and_not (unassigned_mask st) activation_map"
proof -
  from assms obtain seed_id where "choose_seed (gs_pe st) (gs_hist st) = Inr (Some seed_id)"
    by (auto simp: grow_iteration_def split: sum.splits option.splits)
  note s = this
  with assms obtain activation_map where
    g: "grow_from (gs_pe st) seed_id (unassigned_mask st) cell_dist_tols = Inr activation_map"
    by (auto simp: grow_iteration_def split: sum.splits)
  with s assms obtain pe h r where
    m: "for_each (merge_cell ops seed_id) (set_bits activation_map)
             (gs_pe st, gs_hist st, remaining_planar_cells st) = Inr (pe, h, r)"
    by (auto simp: grow_iteration_def split: sum.splits)
  from assms have "gs_hist st' = h \<and> unassigned_mask st' = and_not (unassigned_mask st) activation_map"
    by (auto simp: grow_iteration_def s g m Let_def split: if_splits option.splits)
  with for_each_merge_hist[OF m] g show ?thesis by auto
qed

text \<open>
  The states at the head of the \<^verbatim>\<open>while\<close> loop of \<^verbatim>\<open>createPlaneSegments\<close> that are reached
  from the state \<open>st0\<close>.
\<close>

inductive region_reach ::
  "'a cell_ops \<Rightarrow> real list \<Rightarrow> 'a grow_state \<Rightarrow> 'a grow_state \<Rightarrow> bool"
  for ops cell_dist_tols st0 where
  start: "region_reach ops cell_dist_tols st0 st0"
| iterate: "region_reach ops cell_dist_tols st0 st \<Longrightarrow> remaining_planar_cells st > 0 \<Longrightarrow>
     grow_iteration ops cell_dist_tols st = Inr (Continue st') \<Longrightarrow>
     region_reach ops cell_dist_tols st0 st'"

lemma region_reach_sound:
  assumes "region_reach ops cell_dist_tols st0 st"
    and "hist_sound angles (members (unassigned_mask st0)) (gs_hist st0)"
  shows "hist_sound angles (members (unassigned_mask st)) (gs_hist st)"
  using assms
proof (induction rule: region_reach.induct)
  case start
  then show ?case by simp
next
  case (iterate st st')
  from grow_iteration_hist[OF iterate.hyps(3)] obtain seed_id activation_map where
    g: "grow_from (gs_pe st) seed_id (unassigned_mask st) cell_dist_tols = Inr activation_map"
    and f: "for_each (\<lambda>i. removePoint (int i)) (set_bits activation_map) (gs_hist st)
             = Inr (gs_hist st')"
    and u: "unassigned_mask st' = and_not (unassigned_mask st) activation_map"
    by blast
  from grow_from_members[OF g] have l: "length activation_map = length (unassigned_mask st)"
    and sub: "set (set_bits activation_map) \<subseteq> members (unassigned_mask st)"
    by (simp_all add: set_set_bits)
  from remove_points_sound[OF iterate.IH[OF iterate.prems] sub distinct_set_bits] f
  have "hist_sound angles (members (unassigned_mask st) - set (set_bits activation_map)) (gs_hist st')"
    by simp
  then show ?case by (simp add: u members_and_not[OF l] set_set_bits)
qed

text \<open>
  Claim C9. The constructor of the histogram succeeds and establishes the invariant for the
  cells of the mask. At the head of every iteration of the region-growing loop the invariant
  holds for the cells of the unassigned mask, and it holds after each of the calls of
  \<^verbatim>\<open>removePoint\<close> made for the cells activated by a flood, in ascending order, for the cells
  that remain.
\<close>

theorem histogram_invariant:
  assumes "1 \<le> B" and "angles_in_range angles planar_flags"
  shows "\<exists>h0. Histogram B angles planar_flags = Inr h0 \<and>
           hist_invariant angles (members planar_flags) h0 \<and>
           (\<forall>st. region_reach ops cell_dist_tols
                   \<lparr>gs_pe = pe, gs_hist = h0, unassigned_mask = planar_flags,
                    remaining_planar_cells = int (count_bits planar_flags), plane_segments = []\<rparr> st
              \<longrightarrow> hist_invariant angles (members (unassigned_mask st)) (gs_hist st) \<and>
                  (\<forall>seed_id activation_map k.
                     grow_from (gs_pe st) seed_id (unassigned_mask st) cell_dist_tols
                       = Inr activation_map \<and> k \<le> length (set_bits activation_map) \<longrightarrow>
                     (\<exists>h'. for_each (\<lambda>i. removePoint (int i)) (take k (set_bits activation_map))
                              (gs_hist st) = Inr h' \<and>
                           hist_invariant angles
                             (members (unassigned_mask st) - set (take k (set_bits activation_map)))
                             h')))"
proof -
  from Histogram_sound[OF assms] obtain h0 where
    h0: "Histogram B angles planar_flags = Inr h0" "hist_sound angles (members planar_flags) h0"
    by blast
  let ?st0 = "\<lparr>gs_pe = pe, gs_hist = h0, unassigned_mask = planar_flags,
               remaining_planar_cells = int (count_bits planar_flags), plane_segments = []\<rparr>"
  have "hist_invariant angles (members (unassigned_mask st)) (gs_hist st) \<and>
        (\<forall>seed_id activation_map k.
           grow_from (gs_pe st) seed_id (unassigned_mask st) cell_dist_tols = Inr activation_map \<and>
           k \<le> length (set_bits activation_map) \<longrightarrow>
           (\<exists>h'. for_each (\<lambda>i. removePoint (int i)) (take k (set_bits activation_map))
                    (gs_hist st) = Inr h' \<and>
                 hist_invariant angles
                   (members (unassigned_mask st) - set (take k (set_bits activation_map))) h'))"
    if reach: "region_reach ops cell_dist_tols ?st0 st" for st
  proof -
    have snd: "hist_sound angles (members (unassigned_mask st)) (gs_hist st)"
      using reach h0(2) by (intro region_reach_sound[OF reach]) simp
    have "\<exists>h'. for_each (\<lambda>i. removePoint (int i)) (take k (set_bits activation_map))
                    (gs_hist st) = Inr h' \<and>
                 hist_invariant angles
                   (members (unassigned_mask st) - set (take k (set_bits activation_map))) h'"
      if g: "grow_from (gs_pe st) seed_id (unassigned_mask st) cell_dist_tols = Inr activation_map"
      for seed_id activation_map k
    proof -
      from grow_from_members(2)[OF g]
      have "set (take k (set_bits activation_map)) \<subseteq> members (unassigned_mask st)"
        using set_take_subset[of k "set_bits activation_map"] by (auto simp: set_set_bits)
      moreover have "distinct (take k (set_bits activation_map))"
        by (simp add: distinct_set_bits)
      ultimately show ?thesis
        using remove_points_sound[OF snd] hist_sound_invariant by blast
    qed
    with hist_sound_invariant[OF snd] show ?thesis by blast
  qed
  with h0 hist_sound_invariant[OF h0(2)] show ?thesis by blast
qed


lemma hist_invariant_positive:
  "hist_invariant angles S h \<Longrightarrow> i < length (bins h) \<Longrightarrow> i \<in> S \<Longrightarrow>
   \<exists>n. nth_int (hist h) (bins h ! i) = Some n \<and> 0 < n"
  unfolding hist_invariant_def by blast

definition corner_angles :: "(real \<times> real) list" where
  "corner_angles = [(pi / 2, 0), (pi, pi)]"

definition corner_histogram :: histogram where
  "corner_histogram = \<lparr>nr_bins_per_coord = 2, nr_points = 2, hist = [1, 0, 0, 1], bins = [0, 3]\<rparr>"

lemma corner_bins:
  "bin_of 2 (pi / 2, 0) = 0" "bin_of 2 (pi, pi) = 3"
  by (simp_all add: bin_of_def trunc_int_def Let_def)

lemma corner_Histogram: "Histogram 2 corner_angles [True, True] = Inr corner_histogram"
  by (simp add: Histogram_def corner_angles_def set_bits_def upt_rec add_point_def corner_bins
      corner_histogram_def Let_def eval_nat_numeral)

lemma pair_grow: 
  "grow_from (pair_extractor flat_cell flat_cell) 0 [True, True] [400, 400] = Inr [True, True]"
  by (simp add: grow_from_def growSeed.simps pair_extractor_def strip_extractor_def
      pair_config_def default_config_def flat_cell_def rejects_def cell_at_def nth_int_def dot_def
      signed_divide_int_def signed_modulo_int_def Let_def)

theorem histogram_invariant_witness:
  "Histogram 2 corner_angles [True, True] = Inr corner_histogram \<and>
   bins corner_histogram ! 1 = 3 \<and> 0 < hist corner_histogram ! 3 \<and>
   for_each (\<lambda>i. removePoint (int i)) (take 1 (set_bits [True, True])) corner_histogram
     = Inr \<lparr>nr_bins_per_coord = 2, nr_points = 2, hist = [0, 0, 0, 1], bins = [- 1, 3]\<rparr> \<and>
   bins \<lparr>nr_bins_per_coord = 2, nr_points = 2, hist = [0, 0, 0, 1], bins = [- 1, 3]\<rparr> ! 1 = 3 \<and>
   0 < hist \<lparr>nr_bins_per_coord = 2, nr_points = 2, hist = [0, 0, 0, 1], bins = [- 1, 3]\<rparr> ! 3"
proof -
  have h: "(1::int) \<le> 2" "angles_in_range corner_angles [True, True]"
    by (auto simp: angles_in_range_def members_def corner_angles_def less_Suc_eq)
  let ?ops = "\<lparr>make_cell = (\<lambda>i w h m c. flat_cell), seg_add = (\<lambda>a b. a),
      calculateStats = (\<lambda>a. a)\<rparr> :: unit cell_ops"
  let ?pe = "pair_extractor flat_cell flat_cell"
  let ?st0 = "\<lparr>gs_pe = ?pe, gs_hist = corner_histogram, unassigned_mask = [True, True],
               remaining_planar_cells = int (count_bits [True, True]), plane_segments = []\<rparr>"
  from histogram_invariant[OF h, of ?ops "[400, 400]" ?pe]
  obtain h0 where h0: "Histogram 2 corner_angles [True, True] = Inr h0"
    and inv0: "hist_invariant corner_angles (members [True, True]) h0"
    and reach0: "\<forall>st. region_reach ?ops [400, 400]
                   \<lparr>gs_pe = ?pe, gs_hist = h0, unassigned_mask = [True, True],
                    remaining_planar_cells = int (count_bits [True, True]), plane_segments = []\<rparr> st
              \<longrightarrow> hist_invariant corner_angles (members (unassigned_mask st)) (gs_hist st) \<and>
                  (\<forall>seed_id activation_map k.
                     grow_from (gs_pe st) seed_id (unassigned_mask st) [400, 400]
                       = Inr activation_map \<and> k \<le> length (set_bits activation_map) \<longrightarrow>
                     (\<exists>h'. for_each (\<lambda>i. removePoint (int i)) (take k (set_bits activation_map))
                              (gs_hist st) = Inr h' \<and>
                           hist_invariant corner_angles
                             (members (unassigned_mask st) - set (take k (set_bits activation_map)))
                             h'))"
    by blast
  from h0 have e: "h0 = corner_histogram" by (simp add: corner_Histogram)
  note inv = inv0[unfolded e]
  note reach = reach0[unfolded e, rule_format, OF region_reach.start,
      unfolded grow_state.select_convs, THEN conjunct2]
  have "1 \<le> length (set_bits [True, True])" by (simp add: set_bits_def)
  with reach[rule_format, of 0 "[True, True]" 1] pair_grow
  obtain h' where h': "for_each (\<lambda>i. removePoint (int i)) (take 1 (set_bits [True, True]))
      corner_histogram = Inr h'"
    and inv': "hist_invariant corner_angles
      (members [True, True] - set (take 1 (set_bits [True, True]))) h'"
    by blast
  have ev: "for_each (\<lambda>i. removePoint (int i)) (take 1 (set_bits [True, True])) corner_histogram
     = Inr \<lparr>nr_bins_per_coord = 2, nr_points = 2, hist = [0, 0, 0, 1], bins = [- 1, 3]\<rparr>"
    by (simp add: set_bits_def upt_rec removePoint_def nth_int_def corner_histogram_def)
  with h' have e': "h' = \<lparr>nr_bins_per_coord = 2, nr_points = 2, hist = [0, 0, 0, 1], bins = [- 1, 3]\<rparr>"
    by simp
  have m1: "(1::nat) \<in> members [True, True]"
    "(1::nat) \<in> members [True, True] - set (take 1 (set_bits [True, True]))"
    by (simp_all add: members_def set_bits_def upt_rec)
  have "\<exists>n. nth_int (hist corner_histogram) (bins corner_histogram ! 1) = Some n \<and> 0 < n"
    using inv _ m1(1) by (rule hist_invariant_positive) (simp add: corner_histogram_def)
  then have p0: "0 < hist corner_histogram ! 3"
    by (simp add: corner_histogram_def nth_int_def)
  have "\<exists>n. nth_int (hist h') (bins h' ! 1) = Some n \<and> 0 < n"
    using inv' _ m1(2) by (rule hist_invariant_positive) (simp add: e')
  then have p1: "0 < hist h' ! 3"
    by (simp add: e' nth_int_def)
  show ?thesis
    using corner_Histogram p0 p1 ev by (simp add: e' corner_histogram_def)
qed

section \<open>Merging planes: the association matrix\<close>

text \<open>
  A matrix of OpenCV is a list of rows of equal length. The association matrix is a vector of
  \<open>nr_planes\<close> bitsets; the capacity \<^verbatim>\<open>BITSET_SIZE\<close> of a bitset is a constant that is not among
  the sources, and is a parameter.
\<close>

definition mat_rows :: "'b list list \<Rightarrow> nat" where
  "mat_rows g = length g"

definition mat_cols :: "'b list list \<Rightarrow> nat" where
  "mat_cols g = (case g of [] \<Rightarrow> 0 | r # _ \<Rightarrow> length r)"

definition set_assoc :: "bool list list \<Rightarrow> int \<Rightarrow> int \<Rightarrow> error + bool list list" where
  "set_assoc m a b =
     (if 0 \<le> a \<and> nat a < length m \<and> 0 \<le> b \<and> nat b < length (m ! nat a)
      then Inr (m[nat a := (m ! nat a)[nat b := True]])
      else Inl UndefinedBehaviour)"

text \<open>Lines 427-433: the body of the scan for the cell \<open>(row_id, col_id)\<close>.\<close>

definition scan_cell ::
  "int list list \<Rightarrow> nat \<Rightarrow> nat \<Rightarrow> bool list list \<Rightarrow> error + bool list list" where
  "scan_cell grid row_id col_id m =
     (let row = grid ! row_id;
          next_row = grid ! (row_id + 1);
          plane_id = row ! col_id
      in if plane_id > 0
         then (case (if row ! (col_id + 1) > 0 \<and> plane_id \<noteq> row ! (col_id + 1)
                     then set_assoc m (plane_id - 1) (row ! (col_id + 1) - 1)
                     else Inr m) of
                 Inl e \<Rightarrow> Inl e
               | Inr m1 \<Rightarrow>
                   if next_row ! col_id > 0 \<and> plane_id \<noteq> next_row ! col_id
                   then set_assoc m1 (plane_id - 1) (next_row ! col_id - 1)
                   else Inr m1)
         else Inr m)"

text \<open>Lines 438-440: the body of the symmetrisation.\<close>

definition symmetrize_cell :: "nat \<Rightarrow> nat \<Rightarrow> bool list list \<Rightarrow> error + bool list list" where
  "symmetrize_cell row_id col_id m =
     (if row_id < length m \<and> col_id < length m \<and>
         col_id < length (m ! row_id) \<and> row_id < length (m ! col_id)
      then Inr (m[row_id := (m ! row_id)[col_id := m ! row_id ! col_id \<or> m ! col_id ! row_id]])
      else Inl UndefinedBehaviour)"

definition getConnectedComponents ::
  "nat \<Rightarrow> nat \<Rightarrow> int list list \<Rightarrow> error + bool list list" where
  "getConnectedComponents bitset_size nr_planes grid =
     (case for_each (\<lambda>row_id. for_each (scan_cell grid row_id) [0..<mat_cols grid - 1])
             [0..<mat_rows grid - 1]
             (replicate nr_planes (replicate bitset_size False)) of
        Inl e \<Rightarrow> Inl e
      | Inr planes_assoc_matrix \<Rightarrow>
          for_each (\<lambda>row_id. for_each (symmetrize_cell row_id) [0..<length planes_assoc_matrix])
            [0..<length planes_assoc_matrix] planes_assoc_matrix)"

text \<open>
  Claim C4 fails on the code. The scan runs over \<open>row_id < rows - 1\<close> and
  \<open>col_id < cols - 1\<close> only, so the cells of the last row are never asked for their right
  neighbour and the cells of the last column never for their lower neighbour. In the grid
  with rows \<open>[1, 1]\<close> and \<open>[1, 2]\<close> the planes 1 and 2 touch in the last row and in the last
  column, and no entry of the matrix is set.
\<close>

theorem assoc_misses_border_pairs:
  "getConnectedComponents 2 2 [[1, 1], [1, 2]] = Inr [[False, False], [False, False]]"
  by (simp add: getConnectedComponents_def mat_rows_def mat_cols_def scan_cell_def
      symmetrize_cell_def upt_rec Let_def eval_nat_numeral)

lemma assoc_finds_inner_pairs:
  "getConnectedComponents 3 3 [[1, 2, 0], [3, 0, 0], [0, 0, 0]] =
     Inr [[False, True, True], [True, False, False], [True, False, False]]"
  by (simp add: getConnectedComponents_def mat_rows_def mat_cols_def scan_cell_def
      symmetrize_cell_def set_assoc_def upt_rec Let_def eval_nat_numeral)


section \<open>Labels without refinement: \<^verbatim>\<open>coarseToLabels\<close>\<close>

text \<open>
  \<open>mat_eq g x\<close> is the comparison mask \<^verbatim>\<open>g == x\<close>, and \<open>setTo v msk g\<close> is \<^verbatim>\<open>g.setTo(v, msk)\<close>:
  the elements of \<open>g\<close> under the mask become \<open>v\<close>.
\<close>

definition mat_eq :: "int list list \<Rightarrow> int \<Rightarrow> bool list list" where
  "mat_eq g x = map (map (\<lambda>y. y = x)) g"

definition setTo :: "int \<Rightarrow> bool list list \<Rightarrow> int list list \<Rightarrow> int list list" where
  "setTo v msk g = map (\<lambda>(mrow, row). map (\<lambda>(b, y). if b then v else y) (zip mrow row)) (zip msk g)"

definition coarseToLabels :: "int list \<Rightarrow> int list list \<Rightarrow> int list list" where
  "coarseToLabels labels grid =
     fold (\<lambda>i grid_plane_seg_map_merged.
             if labels ! i \<noteq> int i
             then setTo (labels ! i) (mat_eq grid_plane_seg_map_merged (int i))
                    grid_plane_seg_map_merged
             else grid_plane_seg_map_merged)
       [0..<length labels] grid"


section \<open>Refinement\<close>

definition MAXFLOAT :: real where
  "MAXFLOAT = 340282346638528859811704183484516925440"

definition coeff :: "matrix \<Rightarrow> int \<Rightarrow> int \<Rightarrow> real option" where
  "coeff m i j =
     (if 0 \<le> i \<and> nat i < m_rows m \<and> 0 \<le> j \<and> nat j < m_cols m
      then nth_int (m_data m) (j * int (m_rows m) + i) else None)"

text \<open>
  Lines 376-382, for the point \<open>pt\<close>: the state is the pair of \<^verbatim>\<open>distances_stacked\<close> and
  \<^verbatim>\<open>seg_map_stacked_\<close>.
\<close>

definition refine_point ::
  "'a cell_segment_scheme \<Rightarrow> int \<Rightarrow> real \<Rightarrow> matrix \<Rightarrow> int \<Rightarrow> real list \<times> int list
     \<Rightarrow> error + real list \<times> int list" where
  "refine_point plane label max_dist pcd_array pt s =
     (case s of (distances_stacked, seg_map) \<Rightarrow>
        case (coeff pcd_array pt 0, coeff pcd_array pt 1, coeff pcd_array pt 2,
              nth_int distances_stacked pt, nth_int seg_map pt) of
          (Some px, Some py, Some pz, Some old, Some _) \<Rightarrow>
            (case getNormal plane of (n0, n1, n2) \<Rightarrow>
               let dist = (px * n0 + py * n1 + pz * n2 + getD plane)\<^sup>2
               in if dist < max_dist \<and> dist < old
                  then Inr (distances_stacked[nat pt := dist], seg_map[nat pt := label])
                  else Inr (distances_stacked, seg_map))
        | _ \<Rightarrow> Inl UndefinedBehaviour)"

definition cell_positions :: "'a plane_extractor \<Rightarrow> (nat \<times> nat) list" where
  "cell_positions pe =
     List.product [0..<nat (nr_vertical_cells pe)] [0..<nat (nr_horizontal_cells pe)]"

definition refine_cell ::
  "'a plane_extractor \<Rightarrow> 'a cell_segment_scheme \<Rightarrow> int \<Rightarrow> int list list \<Rightarrow> matrix \<Rightarrow> nat \<times> nat
     \<Rightarrow> real list \<times> int list \<Rightarrow> error + real list \<times> int list" where
  "refine_cell pe plane label msk pcd_array pos s =
     (case pos of (row_id, col_id) \<Rightarrow>
        if row_id \<ge> length msk \<or> col_id \<ge> length (msk ! row_id) then Inl UndefinedBehaviour
        else if msk ! row_id ! col_id = 0 then Inr s
        else
          let stacked_cell_id = int row_id * nr_horizontal_cells pe + int col_id;
              offset = stacked_cell_id * nr_pts_per_cell pe;
              next_offset = offset + nr_pts_per_cell pe;
              max_dist = refinementMultiplierCoeff (pe_config pe) * getMSE plane
          in for_each (refine_point plane label max_dist pcd_array) [offset..next_offset - 1] s)"

text \<open>
  \<^verbatim>\<open>refineCells\<close>. The array \<^verbatim>\<open>distances_stacked\<close> is a local variable: it is created, filled
  with \<^verbatim>\<open>MAXFLOAT\<close>, in every call, and dropped at the end of the call.
\<close>

definition refineCells ::
  "'a plane_extractor \<Rightarrow> 'a cell_segment_scheme \<Rightarrow> int \<Rightarrow> int list list \<Rightarrow> matrix
     \<Rightarrow> error + 'a plane_extractor" where
  "refineCells pe plane label msk pcd_array =
     (let distances_stacked = replicate (nat (image_width pe * image_height pe)) MAXFLOAT
      in case for_each (refine_cell pe plane label msk pcd_array) (cell_positions pe)
                (distances_stacked, seg_map_stacked pe) of
           Inl e \<Rightarrow> Inl e
         | Inr (_, seg_map) \<Rightarrow> Inr (pe\<lparr>seg_map_stacked := seg_map\<rparr>))"

text \<open>
  \<^verbatim>\<open>cv::erode\<close> and \<^verbatim>\<open>cv::dilate\<close> with a 3x3 kernel anchored at its centre and the default
  border: a position outside the matrix does not constrain the minimum of the erosion nor
  the maximum of the dilation. A kernel is the list of the offsets of its non-zero entries.
\<close>

definition cross_kernel :: "(int \<times> int) list" where
  "cross_kernel = [(- 1, 0), (0, - 1), (0, 0), (0, 1), (1, 0)]"

definition square_kernel :: "(int \<times> int) list" where
  "square_kernel = [(- 1, - 1), (- 1, 0), (- 1, 1), (0, - 1), (0, 0), (0, 1), (1, - 1), (1, 0), (1, 1)]"

definition under_kernel :: "(int \<times> int) list \<Rightarrow> int list list \<Rightarrow> nat \<Rightarrow> nat \<Rightarrow> int list" where
  "under_kernel ker m r c =
     concat (map (\<lambda>(dr, dc).
        case nth_int m (int r + dr) of
          None \<Rightarrow> []
        | Some row \<Rightarrow> (case nth_int row (int c + dc) of None \<Rightarrow> [] | Some v \<Rightarrow> [v])) ker)"

definition erode :: "(int \<times> int) list \<Rightarrow> int list list \<Rightarrow> int list list" where
  "erode ker m =
     map (\<lambda>r. map (\<lambda>c. fold min (under_kernel ker m r c) 255) [0..<length (m ! r)])
       [0..<length m]"

definition dilate :: "(int \<times> int) list \<Rightarrow> int list list \<Rightarrow> int list list" where
  "dilate ker m =
     map (\<lambda>r. map (\<lambda>c. fold max (under_kernel ker m r c) 0) [0..<length (m ! r)])
       [0..<length m]"

text \<open>The saturating difference of two matrices of unsigned bytes.\<close>

definition mat_sub :: "int list list \<Rightarrow> int list list \<Rightarrow> int list list" where
  "mat_sub a b = map (\<lambda>(ra, rb). map (\<lambda>(x, y). max 0 (x - y)) (zip ra rb)) (zip a b)"

definition mat_max :: "int list list \<Rightarrow> int" where
  "mat_max m = fold max (concat m) 0"

text \<open>
  The two conversions of an integer to an unsigned byte: the conversion of the language,
  which wraps, and \<^verbatim>\<open>cv::saturate_cast<uchar>\<close>, which clamps and which \<^verbatim>\<open>setTo\<close> applies to
  its value on a matrix of bytes.
\<close>

definition uchar :: "int \<Rightarrow> int" where
  "uchar v = v mod 256"

definition saturate_uchar :: "int \<Rightarrow> int" where
  "saturate_uchar v = max 0 (min 255 v)"

text \<open>
  The body of the loop of \<^verbatim>\<open>refinePlanes\<close> for the plane \<open>i\<close>; the state is the extractor and
  the vector \<^verbatim>\<open>plane_segments_final\<close>. The number of final planes is a \<^verbatim>\<open>size_t\<close>. It is
  clamped to a byte when \<^verbatim>\<open>setTo\<close> stores it in the eroded grid, a matrix of \<^verbatim>\<open>uchar\<close>, and it
  is converted to \<^verbatim>\<open>label_t\<close> when it is passed to \<^verbatim>\<open>refineCells\<close>. The declaration of
  \<^verbatim>\<open>label_t\<close> is not among the sources; \<^verbatim>\<open>toLabels\<close> reads the rows of the eroded grid through
  \<^verbatim>\<open>ptr<label_t>\<close>, so it is an unsigned byte, and the conversion wraps.
\<close>

definition refine_plane ::
  "int list \<Rightarrow> int list \<Rightarrow> matrix \<Rightarrow> nat \<Rightarrow> 'a plane_extractor \<times> int list
     \<Rightarrow> error + 'a plane_extractor \<times> int list" where
  "refine_plane segments merge_labels pcd_array i s =
     (case s of (pe, plane_segments_final) \<Rightarrow>
        if i \<ge> length merge_labels then Inl UndefinedBehaviour
        else if int i \<noteq> merge_labels ! i then Inr s
        else
          let zero = map (map (\<lambda>_. 0)) (grid_plane_seg_map pe);
              msk = fold (\<lambda>j m. if merge_labels ! j = merge_labels ! i
                                 then setTo 1 (mat_eq (grid_plane_seg_map pe) (int j + 1)) m
                                 else m)
                      [i..<length segments] zero;
              mask_eroded = erode cross_kernel msk
          in if mat_max mask_eroded = 0 then Inr s
             else
               let final = plane_segments_final @ [segments ! i];
                   mask_dilated = dilate square_kernel msk;
                   mask_diff = mat_sub mask_dilated mask_eroded;
                   pe1 = pe\<lparr>grid_plane_seg_map_eroded :=
                            setTo (saturate_uchar (int (length final)))
                              (map (map (\<lambda>v. v > 0)) mask_eroded)
                              (grid_plane_seg_map_eroded pe)\<rparr>
               in case cell_at pe1 (segments ! i) of
                    None \<Rightarrow> Inl UndefinedBehaviour
                  | Some plane \<Rightarrow>
                      (case refineCells pe1 plane (uchar (int (length final))) mask_diff
                              pcd_array of
                         Inl e \<Rightarrow> Inl e
                       | Inr pe2 \<Rightarrow> Inr (pe2, final)))"

text \<open>
  \<^verbatim>\<open>refinePlanes\<close>. The source asserts that there are as many merge labels as segments;
  where the assertion is compiled out, a shorter vector of labels is read out of bounds.
\<close>

definition refinePlanes ::
  "'a plane_extractor \<Rightarrow> int list \<Rightarrow> int list \<Rightarrow> matrix \<Rightarrow> error + 'a plane_extractor" where
  "refinePlanes pe segments merge_labels pcd_array =
     (if length segments \<noteq> length merge_labels then Inl UndefinedBehaviour
      else case for_each (refine_plane segments merge_labels pcd_array)
                  [0..<length segments] (pe, []) of
             Inl e \<Rightarrow> Inl e
           | Inr (pe', _) \<Rightarrow> Inr pe')"

subsection \<open>Two planes side by side\<close>

definition plane_at :: "real \<Rightarrow> cell_segment" where
  "plane_at z = \<lparr>getNormal = (0, 0, 1), getMean = (0, 0, z), getD = - z, getMSE = 1,
     getScore = 100, isPlanar = True\<rparr>"

definition row_extractor :: "unit plane_extractor" where
  "row_extractor = \<lparr>pe_config = default_config\<lparr>patchSize := 1\<rparr>,
     nr_horizontal_cells = 4, nr_vertical_cells = 1,
     nr_total_cells = 4, nr_pts_per_cell = 1, image_height = 1, image_width = 4,
     cell_grid = [Some (plane_at 10), Some (plane_at 11), Some (plane_at 13), Some (plane_at 12)],
     grid_plane_seg_map = [[1, 1, 2, 2]], grid_plane_seg_map_eroded = [[0, 0, 0, 0]],
     seg_map_stacked = [0, 0, 0, 0]\<rparr>"

definition row_points :: matrix where
  "row_points = \<lparr>m_rows = 4, m_cols = 3, m_data = [0, 1, 2, 3, 0, 0, 0, 0, 10, 11, 12, 13]\<rparr>"

text \<open>The squared residual of the point \<open>pt\<close> for a plane, as \<^verbatim>\<open>refineCells\<close> computes it.\<close>

definition sq_residual :: "'a cell_segment_scheme \<Rightarrow> matrix \<Rightarrow> int \<Rightarrow> real" where
  "sq_residual plane pcd_array pt =
     (case (coeff pcd_array pt 0, coeff pcd_array pt 1, coeff pcd_array pt 2, getNormal plane) of
        (Some px, Some py, Some pz, (n0, n1, n2)) \<Rightarrow> (px * n0 + py * n1 + pz * n2 + getD plane)\<^sup>2
      | _ \<Rightarrow> 0)"

lemma row_refined:
  "refinePlanes row_extractor [0, 2] [0, 1] row_points =
     Inr (row_extractor\<lparr>grid_plane_seg_map_eroded := [[1, 0, 0, 2]],
                        seg_map_stacked := [0, 2, 2, 0]\<rparr>)"
  by code_simp

text \<open>
  Claim C1 fails on the code. In a row of four cells of one pixel each, the first plane covers
  the cells 0 and 1 and the second the cells 2 and 3; the dilated boundary masks of both
  planes contain the pixels 1 and 2. For pixel 1 the squared residual is 1 for the first
  plane and 4 for the second, both below the gate 15, and the stacked segment map assigns
  the pixel to the second plane: \<^verbatim>\<open>distances_stacked\<close> is a local array of \<^verbatim>\<open>refineCells\<close>, so the
  distance recorded for the first plane is gone when the second plane is refined, and the
  last plane that passes its gate wins.
\<close>

theorem refinement_last_plane_wins:
  "refinePlanes row_extractor [0, 2] [0, 1] row_points =
     Inr (row_extractor\<lparr>grid_plane_seg_map_eroded := [[1, 0, 0, 2]],
                        seg_map_stacked := [0, 2, 2, 0]\<rparr>) \<and>
   sq_residual (plane_at 10) row_points 1 = 1 \<and>
   sq_residual (plane_at 13) row_points 1 = 4 \<and>
   refinementMultiplierCoeff (pe_config row_extractor) * getMSE (plane_at 10) = 15 \<and>
   refinementMultiplierCoeff (pe_config row_extractor) * getMSE (plane_at 13) = 15"
  using row_refined
  by (simp add: sq_residual_def coeff_def nth_int_def row_points_def plane_at_def
      row_extractor_def default_config_def)

section \<open>The label image: \<^verbatim>\<open>toLabels\<close>\<close>

definition set_px :: "int list list \<Rightarrow> int \<Rightarrow> int \<Rightarrow> int \<Rightarrow> int list list option" where
  "set_px img r c v =
     (case nth_int img r of
        None \<Rightarrow> None
      | Some row \<Rightarrow> if 0 \<le> c \<and> nat c < length row then Some (img[nat r := row[nat c := v]])
                    else None)"

text \<open>The pixels of the cell \<open>(cell_r, cell_c)\<close>, row by row.\<close>

definition cell_pixels :: "int \<Rightarrow> nat \<Rightarrow> nat \<Rightarrow> (int \<times> int) list" where
  "cell_pixels P cell_r cell_c =
     (let r_offset = int cell_r * P; r_limit = r_offset + P;
          c_offset = int cell_c * P; c_limit = c_offset + P
      in List.product [r_offset..r_limit - 1] [c_offset..c_limit - 1])"

definition fill_px :: "int \<Rightarrow> int \<times> int \<Rightarrow> int list list \<Rightarrow> error + int list list" where
  "fill_px v p img =
     (case p of (r, c) \<Rightarrow>
        case set_px img r c v of None \<Rightarrow> Inl UndefinedBehaviour | Some img' \<Rightarrow> Inr img')"

definition copy_px ::
  "int list \<Rightarrow> int \<times> int \<Rightarrow> int list list \<times> int \<Rightarrow> error + int list list \<times> int" where
  "copy_px seg_map p s =
     (case p of (r, c) \<Rightarrow> case s of (img, idx) \<Rightarrow>
        case nth_int seg_map idx of
          None \<Rightarrow> Inl UndefinedBehaviour
        | Some v \<Rightarrow>
            if v > 0
            then (case set_px img r c (uchar v) of
                    None \<Rightarrow> Inl UndefinedBehaviour
                  | Some img' \<Rightarrow> Inr (img', idx + 1))
            else Inr (img, idx + 1))"

text \<open>Lines 314-330: the body of the loops of \<^verbatim>\<open>toLabels\<close> for one cell.\<close>

definition label_cell ::
  "'a plane_extractor \<Rightarrow> nat \<times> nat \<Rightarrow> int list list \<Rightarrow> error + int list list" where
  "label_cell pe pos seg_out =
     (case pos of (cell_r, cell_c) \<Rightarrow>
        case nth_int (grid_plane_seg_map_eroded pe) (int cell_r) of
          None \<Rightarrow> Inl UndefinedBehaviour
        | Some grid_plane_eroded_row \<Rightarrow>
           (case nth_int grid_plane_eroded_row (int cell_c) of
              None \<Rightarrow> Inl UndefinedBehaviour
            | Some e \<Rightarrow>
               let pixels = cell_pixels (patchSize (pe_config pe)) cell_r cell_c in
               if e > 0 then for_each (fill_px e) pixels seg_out
               else
                 let idx = nr_pts_per_cell pe * int cell_r * nr_horizontal_cells pe
                           + nr_pts_per_cell pe * int cell_c
                 in (case for_each (copy_px (seg_map_stacked pe)) pixels (seg_out, idx) of
                       Inl err \<Rightarrow> Inl err
                     | Inr (img, _) \<Rightarrow> Inr img)))"

definition toLabels :: "'a plane_extractor \<Rightarrow> error + int list list" where
  "toLabels pe =
     for_each (label_cell pe) (cell_positions pe)
       (replicate (nat (image_height pe)) (replicate (nat (image_width pe)) 0))"

lemma for_each_invariant:
  assumes "for_each body is s = Inr s'" and "I s"
    and "\<And>i s s'. i \<in> set is \<Longrightarrow> I s \<Longrightarrow> body i s = Inr s' \<Longrightarrow> I s'"
  shows "I s'"
  using assms
proof (induction "is" arbitrary: s)
  case Nil
  then show ?case by simp
next
  case (Cons i "is")
  from Cons.prems(1) obtain s1 where s1: "body i s = Inr s1" "for_each body is s1 = Inr s'"
    by (auto split: sum.splits)
  from Cons.prems(3)[OF _ Cons.prems(2) s1(1)] have "I s1" by simp
  show ?case
  proof (rule Cons.IH[OF s1(2) \<open>I s1\<close>])
    fix j t t' assume "j \<in> set is" "I t" "body j t = Inr t'"
    then show "I t'" using Cons.prems(3)[of j t t'] by simp
  qed
qed

text \<open>
  \<open>margin_zero pe img\<close>: every pixel of \<open>img\<close> in a row at or below \<open>H_cells * P\<close> or in a
  column at or beyond \<open>W_cells * P\<close> is 0. \<open>image_shape pe img\<close>: the image has
  \<open>image_height\<close> rows of \<open>image_width\<close> pixels.
\<close>

definition margin_zero :: "'a plane_extractor \<Rightarrow> int list list \<Rightarrow> bool" where
  "margin_zero pe img \<longleftrightarrow>
     (\<forall>r c. r < length img \<longrightarrow> c < length (img ! r) \<longrightarrow>
        (nr_vertical_cells pe * patchSize (pe_config pe) \<le> int r \<or>
         nr_horizontal_cells pe * patchSize (pe_config pe) \<le> int c) \<longrightarrow>
        img ! r ! c = 0)"

definition image_shape :: "'a plane_extractor \<Rightarrow> int list list \<Rightarrow> bool" where
  "image_shape pe img \<longleftrightarrow>
     length img = nat (image_height pe) \<and> (\<forall>row \<in> set img. length row = nat (image_width pe))"

lemma set_px_shape:
  assumes "set_px img r c v = Some img'" and "image_shape pe img"
  shows "image_shape pe img'"
proof -
  from assms(1) obtain row where row: "0 \<le> r" "nat r < length img" "row = img ! nat r"
    and img': "img' = img[nat r := row[nat c := v]]"
    by (auto simp: set_px_def nth_int_def split: if_splits)
  have "length x = nat (image_width pe)" if "x \<in> set img'" for x
  proof -
    from that img' have "x \<in> insert (row[nat c := v]) (set img)"
      using set_update_subset_insert by fastforce
    with assms(2) row show ?thesis by (auto simp: image_shape_def)
  qed
  with assms(2) img' show ?thesis by (simp add: image_shape_def)
qed

lemma set_px_margin:
  assumes "set_px img r c v = Some img'" and "margin_zero pe img"
    and "r < nr_vertical_cells pe * patchSize (pe_config pe)"
    and "c < nr_horizontal_cells pe * patchSize (pe_config pe)"
  shows "margin_zero pe img'"
proof -
  from assms(1) obtain row where row: "0 \<le> r" "nat r < length img" "row = img ! nat r"
      "0 \<le> c" "nat c < length row"
    and img': "img' = img[nat r := row[nat c := v]]"
    by (auto simp: set_px_def nth_int_def split: if_splits)
  show ?thesis
    unfolding margin_zero_def
  proof (intro allI impI)
    fix r' c'
    assume b: "r' < length img'" "c' < length (img' ! r')"
      and m: "nr_vertical_cells pe * patchSize (pe_config pe) \<le> int r' \<or>
              nr_horizontal_cells pe * patchSize (pe_config pe) \<le> int c'"
    have same: "img' ! r' ! c' = img ! r' ! c'"
    proof (cases "r' = nat r")
      case True
      with m assms(3,4) row have "c' \<noteq> nat c" by auto
      with True row img' show ?thesis by simp
    next
      case False
      with img' show ?thesis by simp
    qed
    have "length (img' ! r') = length (img ! r')"
      using img' row by (cases "r' = nat r") simp_all
    with b img' have "r' < length img" "c' < length (img ! r')" by simp_all
    with assms(2) m have "img ! r' ! c' = 0" unfolding margin_zero_def by blast
    with same show "img' ! r' ! c' = 0" by simp
  qed
qed

lemma cell_pixels_covered:
  assumes "(r, c) \<in> set (cell_pixels P cell_r cell_c)"
    and "int cell_r < Hc" and "int cell_c < Wc"
  shows "r < Hc * P \<and> c < Wc * P"
proof -
  from assms(1) have r: "int cell_r * P \<le> r" "r \<le> int cell_r * P + P - 1"
    and c: "int cell_c * P \<le> c" "c \<le> int cell_c * P + P - 1"
    by (auto simp: cell_pixels_def Let_def)
  from r have P: "1 \<le> P" by simp
  have "(int cell_r + 1) * P \<le> Hc * P" using assms(2) P by (intro mult_right_mono) auto
  moreover have "(int cell_c + 1) * P \<le> Wc * P" using assms(3) P by (intro mult_right_mono) auto
  ultimately show ?thesis using r c by (simp add: algebra_simps)
qed

definition labels_ok :: "'a plane_extractor \<Rightarrow> int list list \<Rightarrow> bool" where
  "labels_ok pe img \<longleftrightarrow> image_shape pe img \<and> margin_zero pe img"

lemma fill_px_ok:
  assumes "fill_px v p img = Inr img'" and "labels_ok pe img"
    and "fst p < nr_vertical_cells pe * patchSize (pe_config pe)"
    and "snd p < nr_horizontal_cells pe * patchSize (pe_config pe)"
  shows "labels_ok pe img'"
proof -
  obtain r c where p: "p = (r, c)" by (cases p)
  with assms(1) have "set_px img r c v = Some img'"
    by (auto simp: fill_px_def split: option.splits)
  with assms(2-4) p show ?thesis
    by (auto simp: labels_ok_def intro: set_px_shape set_px_margin)
qed

lemma copy_px_ok:
  assumes "copy_px seg_map p s = Inr s'" and "labels_ok pe (fst s)"
    and "fst p < nr_vertical_cells pe * patchSize (pe_config pe)"
    and "snd p < nr_horizontal_cells pe * patchSize (pe_config pe)"
  shows "labels_ok pe (fst s')"
proof -
  obtain r c where p: "p = (r, c)" by (cases p)
  obtain img idx where s: "s = (img, idx)" by (cases s)
  from assms(1) p s consider "fst s' = img"
    | v where "set_px img r c (uchar v) = Some (fst s')"
    by (auto simp: copy_px_def split: option.splits if_splits)
  then show ?thesis
  proof cases
    case 1
    with assms(2) s show ?thesis by simp
  next
    case 2
    with assms(2-4) p s show ?thesis
      by (auto simp: labels_ok_def intro: set_px_shape set_px_margin)
  qed
qed

lemma label_cell_ok:
  assumes "label_cell pe pos img = Inr img'" and "labels_ok pe img"
    and "pos \<in> set (cell_positions pe)"
  shows "labels_ok pe img'"
proof -
  obtain cell_r cell_c where pos: "pos = (cell_r, cell_c)" by (cases pos)
  with assms(3) have cell: "int cell_r < nr_vertical_cells pe" "int cell_c < nr_horizontal_cells pe"
    by (auto simp: cell_positions_def)
  let ?pixels = "cell_pixels (patchSize (pe_config pe)) cell_r cell_c"
  have cov: "fst p < nr_vertical_cells pe * patchSize (pe_config pe) \<and>
             snd p < nr_horizontal_cells pe * patchSize (pe_config pe)" if "p \<in> set ?pixels" for p
    using that cell_pixels_covered[OF _ cell, of "fst p" "snd p"] by simp
  from assms(1) pos consider e where "for_each (fill_px e) ?pixels img = Inr img'"
    | idx idx' where "for_each (copy_px (seg_map_stacked pe)) ?pixels (img, idx) = Inr (img', idx')"
    by (auto simp: label_cell_def Let_def split: option.splits if_splits sum.splits)
  then show ?thesis
  proof cases
    case 1
    then show ?thesis using assms(2)
    proof (rule for_each_invariant)
      fix p t t' assume "p \<in> set ?pixels" "labels_ok pe t" "fill_px e p t = Inr t'"
      then show "labels_ok pe t'" using cov[of p] by (auto intro: fill_px_ok)
    qed
  next
    case 2
    have "labels_ok pe (fst (img', idx'))"
      using 2
    proof (rule for_each_invariant[where I = "\<lambda>s. labels_ok pe (fst s)"])
      show "labels_ok pe (fst (img, idx))" using assms(2) by simp
    next
      fix p t t'
      assume "p \<in> set ?pixels" "labels_ok pe (fst t)" "copy_px (seg_map_stacked pe) p t = Inr t'"
      then show "labels_ok pe (fst t')" using cov[of p] by (auto intro: copy_px_ok)
    qed
    then show ?thesis by simp
  qed
qed


lemma for_each_total:
  assumes "J 0 s"
    and "\<And>k s. k < length is \<Longrightarrow> J k s \<Longrightarrow> \<exists>s'. body (is ! k) s = Inr s' \<and> J (Suc k) s'"
  shows "\<exists>s'. for_each body is s = Inr s' \<and> J (length is) s'"
  using assms
proof (induction "is" arbitrary: s J)
  case Nil
  then show ?case by simp
next
  case (Cons i "is")
  from Cons.prems(2)[of 0 s] Cons.prems(1) obtain s1 where
    s1: "body i s = Inr s1" "J (Suc 0) s1" by auto
  have "\<exists>s'. for_each body is s1 = Inr s' \<and> J (Suc (length is)) s'"
  proof (rule Cons.IH[where J = "\<lambda>k. J (Suc k)"])
    show "J (Suc 0) s1" by (rule s1(2))
  next
    fix k t assume "k < length is" "J (Suc k) t"
    with Cons.prems(2)[of "Suc k" t] show "\<exists>s'. body (is ! k) t = Inr s' \<and> J (Suc (Suc k)) s'"
      by simp
  qed
  with s1(1) show ?case by simp
qed

text \<open>
  The state that the constructor establishes and every stage maintains, as far as
  \<^verbatim>\<open>toLabels\<close> depends on it.
\<close>

definition labels_wf :: "'a plane_extractor \<Rightarrow> bool" where
  "labels_wf pe \<longleftrightarrow>
     1 \<le> patchSize (pe_config pe) \<and>
     0 \<le> nr_vertical_cells pe \<and> 0 \<le> nr_horizontal_cells pe \<and>
     nr_vertical_cells pe * patchSize (pe_config pe) \<le> image_height pe \<and>
     nr_horizontal_cells pe * patchSize (pe_config pe) \<le> image_width pe \<and>
     nr_pts_per_cell pe = patchSize (pe_config pe) * patchSize (pe_config pe) \<and>
     length (grid_plane_seg_map_eroded pe) = nat (nr_vertical_cells pe) \<and>
     (\<forall>row \<in> set (grid_plane_seg_map_eroded pe). length row = nat (nr_horizontal_cells pe)) \<and>
     nr_vertical_cells pe * nr_horizontal_cells pe * nr_pts_per_cell pe
       \<le> int (length (seg_map_stacked pe))"

lemma set_px_total:
  assumes "image_shape pe img" and "0 \<le> r" and "r < image_height pe"
    and "0 \<le> c" and "c < image_width pe"
  shows "\<exists>img'. set_px img r c v = Some img'"
proof -
  from assms have r: "nat r < length img" by (simp add: image_shape_def)
  then have "img ! nat r \<in> set img" by simp
  with assms have "nat c < length (img ! nat r)" by (simp add: image_shape_def)
  with r assms(2,4) show ?thesis by (simp add: set_px_def nth_int_def)
qed

lemma cell_pixels_length:
  "0 \<le> P \<Longrightarrow> length (cell_pixels P cell_r cell_c) = nat (P * P)"
  by (simp add: cell_pixels_def Let_def length_product nat_mult_distrib)

lemma cell_pixels_nonneg:
  assumes "(r, c) \<in> set (cell_pixels P cell_r cell_c)"
  shows "0 \<le> r \<and> 0 \<le> c"
proof -
  from assms have r: "int cell_r * P \<le> r" "r \<le> int cell_r * P + P - 1"
    and c: "int cell_c * P \<le> c" by (auto simp: cell_pixels_def Let_def)
  from r have "1 \<le> P" by simp
  then have "0 \<le> int cell_r * P" "0 \<le> int cell_c * P" by simp_all
  with r c show ?thesis by linarith
qed

lemma label_cell_total:
  assumes wf: "labels_wf pe" and img: "image_shape pe img"
    and pos: "pos \<in> set (cell_positions pe)"
  shows "\<exists>img'. label_cell pe pos img = Inr img' \<and> image_shape pe img'"
proof -
  let ?P = "patchSize (pe_config pe)"
  obtain cell_r cell_c where p: "pos = (cell_r, cell_c)" by (cases pos)
  with pos have cell: "int cell_r < nr_vertical_cells pe" "int cell_c < nr_horizontal_cells pe"
    by (auto simp: cell_positions_def)
  let ?pixels = "cell_pixels ?P cell_r cell_c"
  from wf have P: "1 \<le> ?P" by (simp add: labels_wf_def)
  from wf cell have "cell_r < length (grid_plane_seg_map_eroded pe)" by (simp add: labels_wf_def)
  then have row: "nth_int (grid_plane_seg_map_eroded pe) (int cell_r)
                  = Some (grid_plane_seg_map_eroded pe ! cell_r)"
    and mem: "grid_plane_seg_map_eroded pe ! cell_r \<in> set (grid_plane_seg_map_eroded pe)"
    by (simp_all add: nth_int_def)
  from wf mem cell have "cell_c < length (grid_plane_seg_map_eroded pe ! cell_r)"
    by (simp add: labels_wf_def)
  then have e: "nth_int (grid_plane_seg_map_eroded pe ! cell_r) (int cell_c)
                  = Some (grid_plane_seg_map_eroded pe ! cell_r ! cell_c)"
    by (simp add: nth_int_def)
  let ?e = "grid_plane_seg_map_eroded pe ! cell_r ! cell_c"
  have inimg: "0 \<le> fst q \<and> fst q < image_height pe \<and> 0 \<le> snd q \<and> snd q < image_width pe"
    if "q \<in> set ?pixels" for q
  proof -
    from that cell_pixels_covered[OF _ cell, of "fst q" "snd q" ?P]
      cell_pixels_nonneg[of "fst q" "snd q" ?P cell_r cell_c] wf
    show ?thesis by (simp add: labels_wf_def)
  qed
  show ?thesis
  proof (cases "?e > 0")
    case True
    have "\<exists>s'. for_each (fill_px ?e) ?pixels img = Inr s' \<and> image_shape pe s'"
    proof (rule for_each_total[where J = "\<lambda>k. image_shape pe"])
      show "image_shape pe img" by (rule img)
    next
      fix k t assume k: "k < length ?pixels" and t: "image_shape pe t"
      obtain r c where q: "?pixels ! k = (r, c)" by (cases "?pixels ! k")
      from k have "?pixels ! k \<in> set ?pixels" by simp
      from inimg[OF this] q set_px_total[OF t, of r c ?e] obtain t' where
        t': "set_px t r c ?e = Some t'" by auto
      with t have "image_shape pe t'" by (auto intro: set_px_shape)
      with t' q show "\<exists>s'. fill_px ?e (?pixels ! k) t = Inr s' \<and> image_shape pe s'"
        by (simp add: fill_px_def)
    qed
    with True row e p show ?thesis by (simp add: label_cell_def Let_def)
  next
    case False
    define idx0 where "idx0 = nr_pts_per_cell pe * int cell_r * nr_horizontal_cells pe
                           + nr_pts_per_cell pe * int cell_c"
    from wf have npts: "nr_pts_per_cell pe = ?P * ?P" by (simp add: labels_wf_def)
    have len: "length ?pixels = nat (?P * ?P)" using P by (intro cell_pixels_length) simp
    have cnt: "int cell_r * nr_horizontal_cells pe + int cell_c + 1
               \<le> nr_vertical_cells pe * nr_horizontal_cells pe"
    proof -
      have "(int cell_r + 1) * nr_horizontal_cells pe \<le> nr_vertical_cells pe * nr_horizontal_cells pe"
        using cell wf by (intro mult_right_mono) (auto simp: labels_wf_def)
      with cell show ?thesis by (simp add: algebra_simps)
    qed
    have idx0: "0 \<le> idx0" using P cell npts by (simp add: idx0_def)
    have top: "idx0 + ?P * ?P \<le> int (length (seg_map_stacked pe))"
    proof -
      have "idx0 + ?P * ?P = (?P * ?P) * (int cell_r * nr_horizontal_cells pe + int cell_c + 1)"
        by (simp add: idx0_def npts algebra_simps)
      also have "\<dots> \<le> (?P * ?P) * (nr_vertical_cells pe * nr_horizontal_cells pe)"
        using cnt P by (intro mult_left_mono) auto
      also have "\<dots> = nr_vertical_cells pe * nr_horizontal_cells pe * nr_pts_per_cell pe"
        by (simp add: npts algebra_simps)
      also have "\<dots> \<le> int (length (seg_map_stacked pe))"
        using wf unfolding labels_wf_def by blast
      finally show ?thesis .
    qed
    have "\<exists>s'. for_each (copy_px (seg_map_stacked pe)) ?pixels (img, idx0) = Inr s' \<and>
               (image_shape pe (fst s') \<and> snd s' = idx0 + int (length ?pixels))"
    proof (rule for_each_total[where J = "\<lambda>k s. image_shape pe (fst s) \<and> snd s = idx0 + int k"])
      show "image_shape pe (fst (img, idx0)) \<and> snd (img, idx0) = idx0 + int 0"
        using img by simp
    next
      fix k t
      assume k: "k < length ?pixels" and t: "image_shape pe (fst t) \<and> snd t = idx0 + int k"
      obtain r c where q: "?pixels ! k = (r, c)" by (cases "?pixels ! k")
      obtain timg where tt: "t = (timg, idx0 + int k)" using t by (cases t) auto
      from k len top idx0 have "0 \<le> idx0 + int k" "nat (idx0 + int k) < length (seg_map_stacked pe)"
        by auto
      then obtain v where v: "nth_int (seg_map_stacked pe) (idx0 + int k) = Some v"
        by (simp add: nth_int_def)
      from k have "?pixels ! k \<in> set ?pixels" by simp
      from inimg[OF this] q set_px_total[of pe timg r c "uchar v"] t tt obtain t' where
        t': "set_px timg r c (uchar v) = Some t'" by auto
      with t tt have "image_shape pe t'" by (auto intro: set_px_shape)
      with t' q v t tt
      show "\<exists>s'. copy_px (seg_map_stacked pe) (?pixels ! k) t = Inr s' \<and>
                  (image_shape pe (fst s') \<and> snd s' = idx0 + int (Suc k))"
        by (auto simp: copy_px_def)
    qed
    then obtain img' idx' where
      "for_each (copy_px (seg_map_stacked pe)) ?pixels (img, idx0) = Inr (img', idx')"
      "image_shape pe img'" by auto
    with False row e p show ?thesis by (simp add: label_cell_def Let_def idx0_def)
  qed
qed


lemma margin_zero_pixel:
  "margin_zero pe img \<Longrightarrow> r < length img \<Longrightarrow> c < length (img ! r) \<Longrightarrow>
   nr_vertical_cells pe * patchSize (pe_config pe) \<le> int r \<or>
   nr_horizontal_cells pe * patchSize (pe_config pe) \<le> int c \<Longrightarrow> img ! r ! c = 0"
  unfolding margin_zero_def by blast

text \<open>
  The label writer by itself leaves the margin alone: on a well-formed extractor \<^verbatim>\<open>toLabels\<close>
  returns an image of \<open>image_height\<close> rows and \<open>image_width\<close> columns in which every pixel of
  the right and bottom margin (row at least \<open>H_cells * P\<close> or column at least \<open>W_cells * P\<close>)
  is 0. Whether \<^verbatim>\<open>process\<close> gets as far as \<^verbatim>\<open>toLabels\<close> on an image with a margin is settled
  with the pipeline.
\<close>

lemma toLabels_margin_zero:
  assumes "labels_wf pe"
  shows "\<exists>img. toLabels pe = Inr img \<and> image_shape pe img \<and> margin_zero pe img"
proof -
  let ?zero = "replicate (nat (image_height pe)) (replicate (nat (image_width pe)) (0::int))"
  have z: "image_shape pe ?zero" "margin_zero pe ?zero"
    by (simp_all add: image_shape_def margin_zero_def)
  have "\<exists>img. for_each (label_cell pe) (cell_positions pe) ?zero = Inr img \<and> image_shape pe img"
  proof (rule for_each_total[where J = "\<lambda>k. image_shape pe"])
    show "image_shape pe ?zero" by (rule z)
  next
    fix k t assume "k < length (cell_positions pe)" "image_shape pe t"
    then show "\<exists>s'. label_cell pe (cell_positions pe ! k) t = Inr s' \<and> image_shape pe s'"
      using label_cell_total[OF assms, of t "cell_positions pe ! k"] by simp
  qed
  then obtain img where img: "for_each (label_cell pe) (cell_positions pe) ?zero = Inr img" by blast
  have "labels_ok pe img"
    using img
  proof (rule for_each_invariant)
    show "labels_ok pe ?zero" using z by (simp add: labels_ok_def)
  next
    fix pos t t'
    assume "pos \<in> set (cell_positions pe)" "labels_ok pe t" "label_cell pe pos t = Inr t'"
    then show "labels_ok pe t'" by (auto intro: label_cell_ok)
  qed
  with img show ?thesis by (auto simp: toLabels_def labels_ok_def)
qed

subsection \<open>An image with a margin column\<close>

definition margin_extractor :: "unit plane_extractor" where
  "margin_extractor = \<lparr>pe_config = default_config\<lparr>patchSize := 2\<rparr>,
     nr_horizontal_cells = 1, nr_vertical_cells = 1,
     nr_total_cells = 1, nr_pts_per_cell = 4, image_height = 2, image_width = 3,
     cell_grid = [None],
     grid_plane_seg_map = [[0]], grid_plane_seg_map_eroded = [[0]],
     seg_map_stacked = [5, 0, 7, 0, 9, 9]\<rparr>"

lemma margin_labels: "toLabels margin_extractor = Inr [[5, 0, 0], [7, 0, 0]]"
  by code_simp

lemma toLabels_margin_zero_column:
  "toLabels margin_extractor = Inr [[5, 0, 0], [7, 0, 0]] \<and>
   [[5, 0, 0], [7, 0, 0 :: int]] ! 0 ! 2 = 0 \<and> [[5, 0, 0], [7, 0, 0 :: int]] ! 1 ! 2 = 0"
proof -
  have wf: "labels_wf margin_extractor"
    by (simp add: labels_wf_def margin_extractor_def default_config_def)
  from toLabels_margin_zero[OF wf] margin_labels
  have m: "margin_zero margin_extractor [[5, 0, 0], [7, 0, 0]]" by simp
  have c: "nr_vertical_cells margin_extractor * patchSize (pe_config margin_extractor) \<le> int r \<or>
        nr_horizontal_cells margin_extractor * patchSize (pe_config margin_extractor) \<le> int 2" for r
    by (simp add: margin_extractor_def default_config_def)
  have "[[5, 0, 0], [7, 0, 0 :: int]] ! 0 ! 2 = 0"
    by (rule margin_zero_pixel[OF m _ _ c]) simp_all
  moreover have "[[5, 0, 0], [7, 0, 0 :: int]] ! 1 ! 2 = 0"
    by (rule margin_zero_pixel[OF m _ _ c]) simp_all
  ultimately show ?thesis using margin_labels by simp
qed

section \<open>The stages before region growing\<close>

definition upd_int :: "'b list \<Rightarrow> int \<Rightarrow> 'b \<Rightarrow> 'b list option" where
  "upd_int xs i v = (if 0 \<le> i \<and> nat i < length xs then Some (xs[nat i := v]) else None)"

text \<open>
  Lines 105-115 of \<^verbatim>\<open>organizeByCell\<close> for the pixel \<open>(r, c)\<close>, whose position in the input is
  \<open>stacked_id = r * image_width + c\<close>. The three coordinates are read from and written to the
  buffers at the strides \<open>mxn = image_width * image_height\<close> and \<open>2 * mxn\<close>, whatever the
  numbers of rows and columns of the two matrices are. A division by a patch size of 0 is
  undefined behaviour.
\<close>

definition organize_pixel ::
  "'a plane_extractor \<Rightarrow> matrix \<Rightarrow> int \<times> int \<Rightarrow> real list \<Rightarrow> error + real list" where
  "organize_pixel pe pcd_array p out =
     (case p of (r, c) \<Rightarrow>
        let patch_size = patchSize (pe_config pe);
            mxn = image_width pe * image_height pe;
            mxn2 = 2 * mxn;
            stacked_id = r * image_width pe + c
        in if patch_size = 0 then Inl UndefinedBehaviour
           else
             let cell_r = r sdiv patch_size; local_r = r smod patch_size;
                 cell_c = c sdiv patch_size; local_c = c smod patch_size;
                 shift = (cell_r * nr_horizontal_cells pe + cell_c) * patch_size * patch_size
                         + local_r * patch_size + local_c
             in case (nth_int (m_data pcd_array) stacked_id,
                      nth_int (m_data pcd_array) (mxn + stacked_id),
                      nth_int (m_data pcd_array) (mxn2 + stacked_id)) of
                  (Some x, Some y, Some z) \<Rightarrow>
                    (case upd_int out shift x of
                       None \<Rightarrow> Inl UndefinedBehaviour
                     | Some o1 \<Rightarrow>
                    (case upd_int o1 (mxn + shift) y of
                       None \<Rightarrow> Inl UndefinedBehaviour
                     | Some o2 \<Rightarrow>
                    (case upd_int o2 (mxn2 + shift) z of
                       None \<Rightarrow> Inl UndefinedBehaviour
                     | Some o3 \<Rightarrow> Inr o3)))
                | _ \<Rightarrow> Inl UndefinedBehaviour)"

text \<open>
  \<^verbatim>\<open>organizeByCell\<close>. The output matrix is allocated with the shape of the input; its
  entries are uninitialised and are modelled as 0 until they are written.
\<close>

definition organizeByCell :: "'a plane_extractor \<Rightarrow> matrix \<Rightarrow> error + matrix" where
  "organizeByCell pe pcd_array =
     (case for_each (organize_pixel pe pcd_array)
             (List.product [0..image_height pe - 1] [0..image_width pe - 1])
             (replicate (m_rows pcd_array * m_cols pcd_array) 0) of
        Inl e \<Rightarrow> Inl e
      | Inr out \<Rightarrow> Inr \<lparr>m_rows = m_rows pcd_array, m_cols = m_cols pcd_array, m_data = out\<rparr>)"

text \<open>
  \<^verbatim>\<open>findPlanarCells\<close>: every cell of the grid is constructed, and its flag is set in a bitset
  of capacity \<open>bitset_size\<close>.
\<close>

definition find_cell ::
  "'a cell_ops \<Rightarrow> matrix \<Rightarrow> int \<Rightarrow> 'a plane_extractor \<times> bool list
     \<Rightarrow> error + 'a plane_extractor \<times> bool list" where
  "find_cell ops pcd_array stacked_cell_id s =
     (case s of (pe, planar_flags) \<Rightarrow>
        let cell_width = patchSize (pe_config pe);
            cell_height = patchSize (pe_config pe);
            c = make_cell ops stacked_cell_id cell_width cell_height pcd_array (pe_config pe)
        in case (upd_int (cell_grid pe) stacked_cell_id (Some c),
                 upd_int planar_flags stacked_cell_id (isPlanar c)) of
             (Some grid, Some flags) \<Rightarrow> Inr (pe\<lparr>cell_grid := grid\<rparr>, flags)
           | _ \<Rightarrow> Inl UndefinedBehaviour)"

definition findPlanarCells ::
  "'a cell_ops \<Rightarrow> nat \<Rightarrow> 'a plane_extractor \<Rightarrow> matrix \<Rightarrow> error + 'a plane_extractor \<times> bool list" where
  "findPlanarCells ops bitset_size pe pcd_array =
     for_each (find_cell ops pcd_array)
       (map (\<lambda>(cell_r, cell_h). int cell_r * nr_horizontal_cells pe + int cell_h) (cell_positions pe))
       (pe, replicate bitset_size False)"

text \<open>
  \<^verbatim>\<open>atan2\<close> of the C library, on exact reals. The quotient \<open>0 / 0\<close>, a NaN in the source,
  is 0 here.
\<close>

definition atan2 :: "real \<Rightarrow> real \<Rightarrow> real" where
  "atan2 y x =
     (if x > 0 then arctan (y / x)
      else if x < 0 then (if y \<ge> 0 then arctan (y / x) + pi else arctan (y / x) - pi)
      else if y > 0 then pi / 2 else if y < 0 then - pi / 2 else 0)"

definition spherical :: "vec3 \<Rightarrow> real \<times> real" where
  "spherical cell_normal =
     (case cell_normal of (n0, n1, n2) \<Rightarrow>
        let n_proj_norm = sqrt (n0 * n0 + n1 * n1)
        in (arccos (- n2), atan2 (n0 / n_proj_norm) (n1 / n_proj_norm)))"

text \<open>
  \<^verbatim>\<open>initializeHistogram\<close>: the rows of \<^verbatim>\<open>spherical_coord\<close> of the cells that are not planar
  are never written nor read; they are \<open>(0, 0)\<close> here.
\<close>

definition initializeHistogram :: "'a plane_extractor \<Rightarrow> bool list \<Rightarrow> error + histogram" where
  "initializeHistogram pe planar_flags =
     (if \<exists>cell_id \<in> set (set_bits planar_flags). cell_at pe (int cell_id) = None
      then Inl UndefinedBehaviour
      else
        let spherical_coord =
              map (\<lambda>cell_id. if cell_id < length planar_flags \<and> planar_flags ! cell_id
                              then (case cell_at pe (int cell_id) of
                                      Some c \<Rightarrow> spherical (getNormal c) | None \<Rightarrow> (0, 0))
                              else (0, 0))
                [0..<nat (nr_total_cells pe)]
        in Histogram (histogramBinsPerCoord (pe_config pe)) spherical_coord planar_flags)"

definition mat_row :: "matrix \<Rightarrow> int \<Rightarrow> vec3 option" where
  "mat_row m i =
     (case (coeff m i 0, coeff m i 1, coeff m i 2) of
        (Some x, Some y, Some z) \<Rightarrow> Some (x, y, z) | _ \<Rightarrow> None)"

definition norm3 :: "vec3 \<Rightarrow> real" where
  "norm3 v = sqrt (dot v v)"

definition minus3 :: "vec3 \<Rightarrow> vec3 \<Rightarrow> vec3" where
  "minus3 a b = (case a of (ax, ay, az) \<Rightarrow> case b of (bx, by, bz) \<Rightarrow> (ax - bx, ay - by, az - bz))"

definition cell_dist_tol :: "'a plane_extractor \<Rightarrow> matrix \<Rightarrow> nat \<Rightarrow> real list \<Rightarrow> error + real list" where
  "cell_dist_tol pe pcd_array cell_id cell_dist_tols =
     (let cos_angle_for_merge = minCosAngleForMerge (pe_config pe);
          sin_angle_for_merge = sqrt (1 - cos_angle_for_merge\<^sup>2);
          min_merge_dist = 20;
          max_merge_dist = maxMergeDist (pe_config pe)
      in case (mat_row pcd_array (int cell_id * nr_pts_per_cell pe + nr_pts_per_cell pe - 1),
               mat_row pcd_array (int cell_id * nr_pts_per_cell pe)) of
           (Some p_last, Some p_first) \<Rightarrow>
             let cell_diameter = norm3 (minus3 p_last p_first);
                 truncated_distance =
                   min (max (cell_diameter * sin_angle_for_merge) min_merge_dist) max_merge_dist
             in (case upd_int cell_dist_tols (int cell_id) (truncated_distance\<^sup>2) of
                   None \<Rightarrow> Inl UndefinedBehaviour
                 | Some tols \<Rightarrow> Inr tols)
         | _ \<Rightarrow> Inl UndefinedBehaviour)"

definition computeCellDistTols ::
  "'a plane_extractor \<Rightarrow> matrix \<Rightarrow> bool list \<Rightarrow> error + real list" where
  "computeCellDistTols pe pcd_array planar_flags =
     for_each (cell_dist_tol pe pcd_array) (set_bits planar_flags)
       (replicate (nat (nr_total_cells pe)) 0)"

section \<open>Merging planes: \<^verbatim>\<open>mergePlanes\<close>\<close>

text \<open>
  The state of the loops of \<^verbatim>\<open>mergePlanes\<close>: the extractor (the segments are cells of its
  grid), the association matrix and the merge labels. The inner loop runs over the bits of
  row \<open>row_id\<close> beyond position \<open>row_id\<close>; it clears only the bit it is at.
\<close>

definition merge_pair ::
  "'a cell_ops \<Rightarrow> int list \<Rightarrow> nat \<Rightarrow> int \<Rightarrow> nat
     \<Rightarrow> ('a plane_extractor \<times> bool list list \<times> int list) \<times> bool
     \<Rightarrow> error + ('a plane_extractor \<times> bool list list \<times> int list) \<times> bool" where
  "merge_pair ops segments row_id plane_id col_id s =
     (case s of ((pe, planes_association_mx, plane_merge_labels), plane_expanded) \<Rightarrow>
        case (nth_int segments plane_id, nth_int segments (int col_id)) of
          (Some p_ptr, Some c_ptr) \<Rightarrow>
            (case (cell_at pe p_ptr, cell_at pe c_ptr) of
               (Some p, Some c) \<Rightarrow>
                 let cos_angle = dot (getNormal p) (getNormal c);
                     distance = (dot (getNormal p) (getMean c) + getD p)\<^sup>2
                 in if cos_angle > minCosAngleForMerge (pe_config pe)
                       \<and> distance < maxMergeDist (pe_config pe)
                    then (case upd_int plane_merge_labels (int col_id) plane_id of
                            None \<Rightarrow> Inl UndefinedBehaviour
                          | Some labels \<Rightarrow>
                              Inr ((pe\<lparr>cell_grid := (cell_grid pe)[nat p_ptr := Some (seg_add ops p c)]\<rparr>,
                                    planes_association_mx, labels), True))
                    else if row_id < length planes_association_mx
                            \<and> col_id < length (planes_association_mx ! row_id)
                    then Inr ((pe, planes_association_mx[row_id :=
                                     (planes_association_mx ! row_id)[col_id := False]],
                               plane_merge_labels), plane_expanded)
                    else Inl UndefinedBehaviour
             | _ \<Rightarrow> Inl UndefinedBehaviour)
        | _ \<Rightarrow> Inl UndefinedBehaviour)"

definition merge_row ::
  "'a cell_ops \<Rightarrow> int list \<Rightarrow> nat \<Rightarrow> 'a plane_extractor \<times> bool list list \<times> int list
     \<Rightarrow> error + 'a plane_extractor \<times> bool list list \<times> int list" where
  "merge_row ops segments row_id s =
     (case s of (pe, planes_association_mx, plane_merge_labels) \<Rightarrow>
        if row_id \<ge> length plane_merge_labels \<or> row_id \<ge> length planes_association_mx
        then Inl UndefinedBehaviour
        else
          let plane_id = plane_merge_labels ! row_id;
              cols = filter (\<lambda>col_id. row_id < col_id) (set_bits (planes_association_mx ! row_id))
          in case for_each (merge_pair ops segments row_id plane_id) cols (s, False) of
               Inl e \<Rightarrow> Inl e
             | Inr ((pe', mx', labels'), plane_expanded) \<Rightarrow>
                 if plane_expanded
                 then (case nth_int segments plane_id of
                         None \<Rightarrow> Inl UndefinedBehaviour
                       | Some p_ptr \<Rightarrow>
                           (case cell_at pe' p_ptr of
                              None \<Rightarrow> Inl UndefinedBehaviour
                            | Some p \<Rightarrow>
                                Inr (pe'\<lparr>cell_grid := (cell_grid pe')[nat p_ptr := Some (calculateStats ops p)]\<rparr>,
                                     mx', labels')))
                 else Inr (pe', mx', labels'))"

definition mergePlanes ::
  "'a cell_ops \<Rightarrow> nat \<Rightarrow> 'a plane_extractor \<Rightarrow> int list \<Rightarrow> error + 'a plane_extractor \<times> int list" where
  "mergePlanes ops bitset_size pe segments =
     (let nr_planes = length segments in
      case getConnectedComponents bitset_size nr_planes (grid_plane_seg_map pe) of
        Inl e \<Rightarrow> Inl e
      | Inr planes_association_mx \<Rightarrow>
          (case for_each (merge_row ops segments) [0..<nr_planes]
                  (pe, planes_association_mx, map int [0..<nr_planes]) of
             Inl e \<Rightarrow> Inl e
           | Inr (pe', _, plane_merge_labels) \<Rightarrow> Inr (pe', plane_merge_labels)))"

section \<open>The pipeline: \<^verbatim>\<open>process\<close>\<close>

text \<open>\<^verbatim>\<open>std::vector::resize(n, v)\<close>: the elements that the vector already has are kept.\<close>

definition vec_resize :: "nat \<Rightarrow> 'b \<Rightarrow> 'b list \<Rightarrow> 'b list" where
  "vec_resize n v xs = (if n \<le> length xs then take n xs else xs @ replicate (n - length xs) v)"

definition cleanArtifacts :: "'a plane_extractor \<Rightarrow> 'a plane_extractor" where
  "cleanArtifacts pe =
     pe\<lparr>cell_grid := vec_resize (nat (nr_total_cells pe)) None (cell_grid pe),
        grid_plane_seg_map := map (map (\<lambda>_. 0)) (grid_plane_seg_map pe),
        grid_plane_seg_map_eroded := map (map (\<lambda>_. 0)) (grid_plane_seg_map_eroded pe),
        seg_map_stacked := vec_resize (nat (image_height pe * image_width pe)) 0 (seg_map_stacked pe)\<rparr>"

text \<open>
  Steps 6 and 7 of \<^verbatim>\<open>process\<close>, from the result of the merge: the label image, flattened row
  by row, and the extractor after the cleanup.
\<close>

definition emit_labels ::
  "'a plane_extractor \<Rightarrow> int list \<Rightarrow> int list \<Rightarrow> matrix \<Rightarrow> error + int list \<times> 'a plane_extractor" where
  "emit_labels pe segments merge_labels organized_array =
     (if doRefinement (pe_config pe)
      then (case refinePlanes pe segments merge_labels organized_array of
              Inl e \<Rightarrow> Inl e
            | Inr pe' \<Rightarrow>
                (case toLabels pe' of
                   Inl e \<Rightarrow> Inl e
                 | Inr labels \<Rightarrow> Inr (concat labels, cleanArtifacts pe')))
      else Inr (concat (coarseToLabels merge_labels (grid_plane_seg_map pe)), cleanArtifacts pe))"

text \<open>
  \<^verbatim>\<open>process\<close>. The result is \<open>None\<close> if the region-growing loop does not terminate, an error
  if a stage throws or runs into undefined behaviour, and otherwise the label image together
  with the extractor as the call leaves it.
\<close>

definition process ::
  "'a cell_ops \<Rightarrow> nat \<Rightarrow> 'a plane_extractor \<Rightarrow> matrix
     \<Rightarrow> (error + int list \<times> 'a plane_extractor) option" where
  "process ops bitset_size pe pcd_array =
     (case organizeByCell pe pcd_array of
        Inl e \<Rightarrow> Some (Inl e)
      | Inr organized_array \<Rightarrow>
     (case findPlanarCells ops bitset_size pe organized_array of
        Inl e \<Rightarrow> Some (Inl e)
      | Inr (pe1, planar_flags) \<Rightarrow>
     (case initializeHistogram pe1 planar_flags of
        Inl e \<Rightarrow> Some (Inl e)
      | Inr h \<Rightarrow>
     (case computeCellDistTols pe1 organized_array planar_flags of
        Inl e \<Rightarrow> Some (Inl e)
      | Inr cell_dist_tols \<Rightarrow>
     (case createPlaneSegments ops pe1 h planar_flags cell_dist_tols of
        None \<Rightarrow> None
      | Some (Inl e) \<Rightarrow> Some (Inl e)
      | Some (Inr st) \<Rightarrow>
     (case mergePlanes ops bitset_size (gs_pe st) (plane_segments st) of
        Inl e \<Rightarrow> Some (Inl e)
      | Inr (pe2, merge_labels) \<Rightarrow>
          Some (emit_labels pe2 (plane_segments st) merge_labels organized_array)))))))"

subsection \<open>Two frames through the pipeline\<close>

text \<open>
  A stand-in for the missing \<^verbatim>\<open>CellSegment\<close>: every cell is a horizontal plane through its
  first point, facing the camera.
\<close>

definition level_cell :: "real \<Rightarrow> cell_segment" where
  "level_cell z = \<lparr>getNormal = (0, 0, - 1), getMean = (0, 0, z), getD = z, getMSE = 1,
     getScore = 100, isPlanar = True\<rparr>"

definition level_ops :: "unit cell_ops" where
  "level_ops = \<lparr>
     make_cell = (\<lambda>stacked_cell_id cell_width cell_height pcd_array cfg.
        level_cell (case coeff pcd_array (stacked_cell_id * cell_width * cell_height) 2 of
                      Some z \<Rightarrow> z | None \<Rightarrow> 0)),
     seg_add = (\<lambda>a b. a),
     calculateStats = (\<lambda>a. a)\<rparr>"

definition line_config :: config where
  "line_config = default_config\<lparr>patchSize := 1, histogramBinsPerCoord := 2,
     minRegionGrowingCandidateSize := 1, minRegionGrowingCellsActivated := 1\<rparr>"

text \<open>The extractor as its constructor leaves it, for an image of one row of four pixels.\<close>

definition line_extractor :: "unit plane_extractor" where
  "line_extractor = \<lparr>pe_config = line_config,
     nr_horizontal_cells = 4, nr_vertical_cells = 1,
     nr_total_cells = 4, nr_pts_per_cell = 1, image_height = 1, image_width = 4,
     cell_grid = [None, None, None, None],
     grid_plane_seg_map = [[0, 0, 0, 0]], grid_plane_seg_map_eroded = [[0, 0, 0, 0]],
     seg_map_stacked = [0, 0, 0, 0]\<rparr>"

definition frame :: "real list \<Rightarrow> matrix" where
  "frame zs = \<lparr>m_rows = 4, m_cols = 3, m_data = [0, 1, 2, 3, 0, 0, 0, 0] @ zs\<rparr>"

definition frame_A :: matrix where
  "frame_A = frame [10, 11, 50, 51]"

definition frame_B :: matrix where
  "frame_B = frame [10, 200, 50, 51]"

definition cells_of :: "real list \<Rightarrow> cell_segment option list" where
  "cells_of zs = map (\<lambda>z. Some (level_cell z)) zs"

lemma spherical_level: "spherical (0, 0, - 1) = (0, 0)"
  by (simp add: spherical_def atan2_def)

lemma bin_level: "bin_of 2 (0, 0) = 0"
  by (simp add: bin_of_def trunc_int_def)

definition line_histogram :: histogram where
  "line_histogram = \<lparr>nr_bins_per_coord = 2, nr_points = 4, hist = [4, 0, 0, 0], bins = [0, 0, 0, 0]\<rparr>"

definition line_pe ::
  "cell_segment option list \<Rightarrow> int list list \<Rightarrow> int list list \<Rightarrow> int list \<Rightarrow> unit plane_extractor" where
  "line_pe cg grid eroded seg =
     line_extractor\<lparr>cell_grid := cg, grid_plane_seg_map := grid,
       grid_plane_seg_map_eroded := eroded, seg_map_stacked := seg\<rparr>"

definition line_state ::
  "unit plane_extractor \<Rightarrow> int list \<Rightarrow> int list \<Rightarrow> bool list \<Rightarrow> int list \<Rightarrow> unit grow_state" where
  "line_state pe hs bs un segs =
     \<lparr>gs_pe = pe, gs_hist = \<lparr>nr_bins_per_coord = 2, nr_points = 4, hist = hs, bins = bs\<rparr>,
      unassigned_mask = un, remaining_planar_cells = int (count_bits un), plane_segments = segs\<rparr>"

abbreviation "zero_row \<equiv> [[0, 0, 0, 0 :: int]]"
abbreviation "tols_400 \<equiv> [400, 400, 400, 400 :: real]"

lemma line_cell_at:
  "cell_at (line_pe (cells_of [z0, z1, z2, z3]) grid eroded seg) 0 = Some (level_cell z0)"
  "cell_at (line_pe (cells_of [z0, z1, z2, z3]) grid eroded seg) 1 = Some (level_cell z1)"
  "cell_at (line_pe (cells_of [z0, z1, z2, z3]) grid eroded seg) 2 = Some (level_cell z2)"
  "cell_at (line_pe (cells_of [z0, z1, z2, z3]) grid eroded seg) 3 = Some (level_cell z3)"
  by (simp_all add: cell_at_def nth_int_def cells_of_def line_pe_def)

lemma line_fields:
  "nr_total_cells (line_pe cg grid eroded seg) = 4"
  "nr_pts_per_cell (line_pe cg grid eroded seg) = 1"
  "pe_config (line_pe cg grid eroded seg) = line_config"
  by (simp_all add: line_pe_def line_extractor_def)

lemma histogram_line:
  "initializeHistogram (line_pe (cells_of [z0, z1, z2, z3]) grid eroded seg)
     [True, True, True, True] = Inr line_histogram"
  by (simp add: initializeHistogram_def set_bits_def upt_rec line_cell_at Let_def
      level_cell_def spherical_level Histogram_def add_point_def bin_level line_histogram_def
      line_fields line_config_def default_config_def eval_nat_numeral)

lemma tols_line:
  "computeCellDistTols (line_pe cg grid eroded seg) (frame [a, b, c, d])
     [True, True, True, True] = Inr tols_400"
  by (simp add: computeCellDistTols_def set_bits_def upt_rec cell_dist_tol_def mat_row_def
      coeff_def nth_int_def frame_def norm3_def minus3_def dot_def upd_int_def Let_def
      line_fields line_config_def default_config_def eval_nat_numeral)

lemma organize_line:
  "organizeByCell (line_pe [c0, c1, c2, c3] zero_row zero_row [s0, s1, s2, s3]) (frame [a, b, c, d])
   = Inr (frame [a, b, c, d])"
  by code_simp

lemma cells_line:
  "findPlanarCells level_ops 4 (line_pe [c0, c1, c2, c3] zero_row zero_row [s0, s1, s2, s3])
     (frame [a, b, c, d]) =
     Inr (line_pe (cells_of [a, b, c, d]) zero_row zero_row [s0, s1, s2, s3],
          [True, True, True, True])"
  by code_simp

lemma iter_A1:
  "grow_iteration level_ops tols_400
     (line_state (line_pe (cells_of [10, 11, 50, 51]) zero_row zero_row [s0, s1, s2, s3])
        [4, 0, 0, 0] [0, 0, 0, 0] [True, True, True, True] []) =
   Inr (Continue
     (line_state (line_pe (cells_of [10, 11, 50, 51]) [[1, 1, 0, 0]] zero_row [s0, s1, s2, s3])
        [2, 0, 0, 0] [- 1, - 1, 0, 0] [False, False, True, True] [0]))"
  by code_simp

lemma iter_A2:
  "grow_iteration level_ops tols_400
     (line_state (line_pe (cells_of [10, 11, 50, 51]) [[1, 1, 0, 0]] zero_row [s0, s1, s2, s3])
        [2, 0, 0, 0] [- 1, - 1, 0, 0] [False, False, True, True] [0]) =
   Inr (Continue
     (line_state (line_pe (cells_of [10, 11, 50, 51]) [[1, 1, 2, 2]] zero_row [s0, s1, s2, s3])
        [0, 0, 0, 0] [- 1, - 1, - 1, - 1] [False, False, False, False] [0, 2]))"
  by code_simp

lemma line_remaining:
  "remaining_planar_cells (line_state pe hs bs un segs) = int (count_bits un)"
  by (simp add: line_state_def)

lemma grow_A:
  "createPlaneSegments level_ops (line_pe (cells_of [10, 11, 50, 51]) zero_row zero_row [s0, s1, s2, s3])
     line_histogram [True, True, True, True] tols_400 =
   Some (Inr (line_state (line_pe (cells_of [10, 11, 50, 51]) [[1, 1, 2, 2]] zero_row [s0, s1, s2, s3])
        [0, 0, 0, 0] [- 1, - 1, - 1, - 1] [False, False, False, False] [0, 2]))"
proof -
  have "createPlaneSegments level_ops
          (line_pe (cells_of [10, 11, 50, 51]) zero_row zero_row [s0, s1, s2, s3])
          line_histogram [True, True, True, True] tols_400 =
        grow_loop level_ops tols_400
          (line_state (line_pe (cells_of [10, 11, 50, 51]) zero_row zero_row [s0, s1, s2, s3])
             [4, 0, 0, 0] [0, 0, 0, 0] [True, True, True, True] [])"
    by (simp add: createPlaneSegments_def line_state_def line_histogram_def)
  also have "\<dots> = grow_loop level_ops tols_400
     (line_state (line_pe (cells_of [10, 11, 50, 51]) [[1, 1, 0, 0]] zero_row [s0, s1, s2, s3])
        [2, 0, 0, 0] [- 1, - 1, 0, 0] [False, False, True, True] [0])"
    by (subst grow_loop.simps) (simp add: iter_A1 line_remaining count_bits_def)
  also have "\<dots> = grow_loop level_ops tols_400
     (line_state (line_pe (cells_of [10, 11, 50, 51]) [[1, 1, 2, 2]] zero_row [s0, s1, s2, s3])
        [0, 0, 0, 0] [- 1, - 1, - 1, - 1] [False, False, False, False] [0, 2])"
    by (subst grow_loop.simps) (simp add: iter_A2 line_remaining count_bits_def)
  also have "\<dots> = Some (Inr
     (line_state (line_pe (cells_of [10, 11, 50, 51]) [[1, 1, 2, 2]] zero_row [s0, s1, s2, s3])
        [0, 0, 0, 0] [- 1, - 1, - 1, - 1] [False, False, False, False] [0, 2]))"
    by (subst grow_loop.simps) (simp add: line_remaining count_bits_def)
  finally show ?thesis .
qed

lemma merge_A:
  "mergePlanes level_ops 4
     (line_pe (cells_of [10, 11, 50, 51]) [[1, 1, 2, 2]] zero_row [s0, s1, s2, s3]) [0, 2] =
   Inr (line_pe (cells_of [10, 11, 50, 51]) [[1, 1, 2, 2]] zero_row [s0, s1, s2, s3], [0, 1])"
  by code_simp

lemma emit_A:
  "emit_labels (line_pe (cells_of [10, 11, 50, 51]) [[1, 1, 2, 2]] zero_row [0, 0, 0, 0]) [0, 2] [0, 1]
     frame_A =
   Inr ([1, 1, 2, 2], line_pe (cells_of [10, 11, 50, 51]) zero_row zero_row [0, 1, 2, 0])"
  by code_simp


lemma iter_B1:
  "grow_iteration level_ops tols_400
     (line_state (line_pe (cells_of [10, 200, 50, 51]) zero_row zero_row [s0, s1, s2, s3])
        [4, 0, 0, 0] [0, 0, 0, 0] [True, True, True, True] []) =
   Inr (Continue
     (line_state (line_pe (cells_of [10, 200, 50, 51]) [[1, 0, 0, 0]] zero_row [s0, s1, s2, s3])
        [3, 0, 0, 0] [- 1, 0, 0, 0] [False, True, True, True] [0]))"
  by code_simp

lemma iter_B2:
  "grow_iteration level_ops tols_400
     (line_state (line_pe (cells_of [10, 200, 50, 51]) [[1, 0, 0, 0]] zero_row [s0, s1, s2, s3])
        [3, 0, 0, 0] [- 1, 0, 0, 0] [False, True, True, True] [0]) =
   Inr (Continue
     (line_state (line_pe (cells_of [10, 200, 50, 51]) [[1, 2, 0, 0]] zero_row [s0, s1, s2, s3])
        [2, 0, 0, 0] [- 1, - 1, 0, 0] [False, False, True, True] [0, 1]))"
  by code_simp

lemma iter_B3:
  "grow_iteration level_ops tols_400
     (line_state (line_pe (cells_of [10, 200, 50, 51]) [[1, 2, 0, 0]] zero_row [s0, s1, s2, s3])
        [2, 0, 0, 0] [- 1, - 1, 0, 0] [False, False, True, True] [0, 1]) =
   Inr (Continue
     (line_state (line_pe (cells_of [10, 200, 50, 51]) [[1, 2, 3, 3]] zero_row [s0, s1, s2, s3])
        [0, 0, 0, 0] [- 1, - 1, - 1, - 1] [False, False, False, False] [0, 1, 2]))"
  by code_simp

lemma grow_B:
  "createPlaneSegments level_ops (line_pe (cells_of [10, 200, 50, 51]) zero_row zero_row [s0, s1, s2, s3])
     line_histogram [True, True, True, True] tols_400 =
   Some (Inr (line_state (line_pe (cells_of [10, 200, 50, 51]) [[1, 2, 3, 3]] zero_row [s0, s1, s2, s3])
        [0, 0, 0, 0] [- 1, - 1, - 1, - 1] [False, False, False, False] [0, 1, 2]))"
proof -
  have "createPlaneSegments level_ops
          (line_pe (cells_of [10, 200, 50, 51]) zero_row zero_row [s0, s1, s2, s3])
          line_histogram [True, True, True, True] tols_400 =
        grow_loop level_ops tols_400
          (line_state (line_pe (cells_of [10, 200, 50, 51]) zero_row zero_row [s0, s1, s2, s3])
             [4, 0, 0, 0] [0, 0, 0, 0] [True, True, True, True] [])"
    by (simp add: createPlaneSegments_def line_state_def line_histogram_def)
  also have "\<dots> = grow_loop level_ops tols_400
     (line_state (line_pe (cells_of [10, 200, 50, 51]) [[1, 0, 0, 0]] zero_row [s0, s1, s2, s3])
        [3, 0, 0, 0] [- 1, 0, 0, 0] [False, True, True, True] [0])"
    by (subst grow_loop.simps) (simp add: iter_B1 line_remaining count_bits_def)
  also have "\<dots> = grow_loop level_ops tols_400
     (line_state (line_pe (cells_of [10, 200, 50, 51]) [[1, 2, 0, 0]] zero_row [s0, s1, s2, s3])
        [2, 0, 0, 0] [- 1, - 1, 0, 0] [False, False, True, True] [0, 1])"
    by (subst grow_loop.simps) (simp add: iter_B2 line_remaining count_bits_def)
  also have "\<dots> = grow_loop level_ops tols_400
     (line_state (line_pe (cells_of [10, 200, 50, 51]) [[1, 2, 3, 3]] zero_row [s0, s1, s2, s3])
        [0, 0, 0, 0] [- 1, - 1, - 1, - 1] [False, False, False, False] [0, 1, 2])"
    by (subst grow_loop.simps) (simp add: iter_B3 line_remaining count_bits_def)
  also have "\<dots> = Some (Inr
     (line_state (line_pe (cells_of [10, 200, 50, 51]) [[1, 2, 3, 3]] zero_row [s0, s1, s2, s3])
        [0, 0, 0, 0] [- 1, - 1, - 1, - 1] [False, False, False, False] [0, 1, 2]))"
    by (subst grow_loop.simps) (simp add: line_remaining count_bits_def)
  finally show ?thesis .
qed

lemma merge_B:
  "mergePlanes level_ops 4
     (line_pe (cells_of [10, 200, 50, 51]) [[1, 2, 3, 3]] zero_row [s0, s1, s2, s3]) [0, 1, 2] =
   Inr (line_pe (cells_of [10, 200, 50, 51]) [[1, 2, 3, 3]] zero_row [s0, s1, s2, s3], [0, 1, 2])"
  by code_simp

lemma emit_B_fresh:
  "emit_labels (line_pe (cells_of [10, 200, 50, 51]) [[1, 2, 3, 3]] zero_row [0, 0, 0, 0])
     [0, 1, 2] [0, 1, 2] frame_B =
   Inr ([0, 0, 1, 1], line_pe (cells_of [10, 200, 50, 51]) zero_row zero_row [0, 0, 1, 0])"
  by code_simp

lemma emit_B_stale:
  "emit_labels (line_pe (cells_of [10, 200, 50, 51]) [[1, 2, 3, 3]] zero_row [0, 1, 2, 0])
     [0, 1, 2] [0, 1, 2] frame_B =
   Inr ([0, 1, 1, 1], line_pe (cells_of [10, 200, 50, 51]) zero_row zero_row [0, 1, 1, 0])"
  by code_simp

lemma emit_A_again:
  "emit_labels (line_pe (cells_of [10, 11, 50, 51]) [[1, 1, 2, 2]] zero_row [0, 1, 2, 0]) [0, 2] [0, 1]
     frame_A =
   Inr ([1, 1, 2, 2], line_pe (cells_of [10, 11, 50, 51]) zero_row zero_row [0, 1, 2, 0])"
  by code_simp

lemma line_extractor_pe:
  "line_extractor = line_pe [None, None, None, None] zero_row zero_row [0, 0, 0, 0]"
  by (simp add: line_pe_def line_extractor_def)

lemmas line_stages = process_def organize_line cells_line histogram_line tols_line line_state_def
  merge_A merge_B

definition after_A :: "unit plane_extractor" where
  "after_A = line_pe (cells_of [10, 11, 50, 51]) zero_row zero_row [0, 1, 2, 0]"

lemma process_A: "process level_ops 4 line_extractor frame_A = Some (Inr ([1, 1, 2, 2], after_A))"
  unfolding line_extractor_pe frame_A_def after_A_def
  by (simp add: line_stages grow_A emit_A[unfolded frame_A_def])

lemma after_A_cells:
  "after_A = line_pe [Some (level_cell 10), Some (level_cell 11), Some (level_cell 50),
                      Some (level_cell 51)] zero_row zero_row [0, 1, 2, 0]"
  by (simp add: after_A_def cells_of_def)

lemma process_A_again: "process level_ops 4 after_A frame_A = Some (Inr ([1, 1, 2, 2], after_A))"
  by (subst after_A_cells)
     (simp add: frame_A_def line_stages grow_A emit_A_again[unfolded frame_A_def] after_A_def)

lemma process_B_fresh:
  "process level_ops 4 line_extractor frame_B =
     Some (Inr ([0, 0, 1, 1], line_pe (cells_of [10, 200, 50, 51]) zero_row zero_row [0, 0, 1, 0]))"
  unfolding line_extractor_pe frame_B_def
  by (simp add: line_stages grow_B emit_B_fresh[unfolded frame_B_def])

lemma process_B_stale:
  "process level_ops 4 after_A frame_B =
     Some (Inr ([0, 1, 1, 1], line_pe (cells_of [10, 200, 50, 51]) zero_row zero_row [0, 1, 1, 0]))"
  by (subst after_A_cells)
     (simp add: frame_B_def line_stages grow_B emit_B_stale[unfolded frame_B_def])

text \<open>
  Claim C2 fails on the code. \<^verbatim>\<open>cleanArtifacts\<close> calls \<^verbatim>\<open>resize\<close> on \<^verbatim>\<open>seg_map_stacked_\<close> and on
  \<^verbatim>\<open>cell_grid_\<close> with the size that they already have, which leaves their elements as they
  are: after the frame \<open>A\<close> the stacked segment map still holds the labels 1 and 2, and the
  cell grid still holds the cells of \<open>A\<close>. Processing \<open>A\<close> again gives the same labels, since the
  same pixels are written again; but the frame \<open>B\<close>, processed after \<open>A\<close>, inherits the stale
  label of pixel 1 and gets the labels \<open>[0, 1, 1, 1]\<close> instead of the labels \<open>[0, 0, 1, 1]\<close> that
  a fresh extractor gives.
\<close>

theorem process_leaves_stale_state:
  "process level_ops 4 line_extractor frame_A = Some (Inr ([1, 1, 2, 2], after_A)) \<and>
   seg_map_stacked after_A = [0, 1, 2, 0] \<and>
   seg_map_stacked line_extractor = [0, 0, 0, 0] \<and>
   cell_grid after_A = cells_of [10, 11, 50, 51] \<and>
   cell_grid line_extractor = [None, None, None, None] \<and>
   process level_ops 4 after_A frame_A = Some (Inr ([1, 1, 2, 2], after_A)) \<and>
   map_option (map_sum id fst) (process level_ops 4 after_A frame_B) = Some (Inr [0, 1, 1, 1]) \<and>
   map_option (map_sum id fst) (process level_ops 4 line_extractor frame_B) = Some (Inr [0, 0, 1, 1])"
proof -
  have f: "seg_map_stacked after_A = [0, 1, 2, 0]" "seg_map_stacked line_extractor = [0, 0, 0, 0]"
    "cell_grid after_A = cells_of [10, 11, 50, 51]"
    "cell_grid line_extractor = [None, None, None, None]"
    by (simp_all add: after_A_def line_pe_def line_extractor_def)
  show ?thesis
    by (simp add: process_A process_A_again process_B_fresh process_B_stale f)
qed

subsection \<open>\<^verbatim>\<open>process\<close> checks no dimension\<close>

lemma sdiv_smod_nonneg:
  "0 \<le> a \<Longrightarrow> 0 < b \<Longrightarrow> a sdiv b = a div b \<and> a smod b = a mod b"
  for a b :: int
  by (simp add: signed_divide_int_def signed_modulo_int_def sgn_if)

lemma int_div_less:
  fixes a b q :: int
  assumes "0 < b" and "a < q * b"
  shows "a div b < q"
proof (rule ccontr)
  assume "\<not> a div b < q"
  then have "q * b \<le> (a div b) * b" using assms(1) by (intro mult_right_mono) auto
  also have "\<dots> \<le> a"
    using assms(1) div_mult_mod_eq[of a b] pos_mod_sign[of b a] by linarith
  finally show False using assms(2) by simp
qed

lemma cell_index_bound:
  fixes r c P Hc Wc :: int
  assumes P: "1 \<le> P" and r: "0 \<le> r" "r < Hc * P" and c: "0 \<le> c" "c < Wc * P"
  shows "0 \<le> (r div P * Wc + c div P) * P * P + r mod P * P + c mod P"
    and "(r div P * Wc + c div P) * P * P + r mod P * P + c mod P < Wc * P * (Hc * P)"
proof -
  have P0: "0 < P" using P by simp
  have rd: "0 \<le> r div P" "r div P < Hc"
    using r P0 by (simp_all add: pos_imp_zdiv_nonneg_iff int_div_less)
  have cd: "0 \<le> c div P" "c div P < Wc"
    using c P0 by (simp_all add: pos_imp_zdiv_nonneg_iff int_div_less)
  have rm: "0 \<le> r mod P" "r mod P \<le> P - 1" using P0 by (simp_all add: zle_diff1_eq)
  have cm: "0 \<le> c mod P" "c mod P \<le> P - 1" using P0 by (simp_all add: zle_diff1_eq)
  have Wc: "0 < Wc" using cd by simp
  define q where "q = r div P * Wc + c div P"
  define t where "t = r mod P * P + c mod P"
  have "0 \<le> r div P * Wc" using rd Wc by simp
  then have q0: "0 \<le> q" using cd by (simp add: q_def)
  have "r div P * Wc \<le> (Hc - 1) * Wc" using rd Wc by (intro mult_right_mono) auto
  then have q1: "q + 1 \<le> Hc * Wc" using cd by (simp add: q_def algebra_simps)
  have "0 \<le> r mod P * P" using rm P0 by simp
  then have t0: "0 \<le> t" using cm by (simp add: t_def)
  have "r mod P * P \<le> (P - 1) * P" using rm P0 by (intro mult_right_mono) auto
  then have t1: "t < P * P" using cm by (simp add: t_def algebra_simps)
  have "0 \<le> q * (P * P)" using q0 P0 by simp
  with t0 show "0 \<le> (r div P * Wc + c div P) * P * P + r mod P * P + c mod P"
    by (simp add: q_def t_def algebra_simps)
  have "q * (P * P) + t < (q + 1) * (P * P)" using t1 by (simp add: algebra_simps)
  also have "\<dots> \<le> (Hc * Wc) * (P * P)" using q1 P0 by (intro mult_right_mono) auto
  finally show "(r div P * Wc + c div P) * P * P + r mod P * P + c mod P < Wc * P * (Hc * P)"
    by (simp add: q_def t_def algebra_simps)
qed


text \<open>
  The image is covered by the cells: the patch size is positive and divides both dimensions.
\<close>

definition covered_by_cells :: "'a plane_extractor \<Rightarrow> bool" where
  "covered_by_cells pe \<longleftrightarrow>
     1 \<le> patchSize (pe_config pe) \<and>
     image_height pe = nr_vertical_cells pe * patchSize (pe_config pe) \<and>
     image_width pe = nr_horizontal_cells pe * patchSize (pe_config pe)"

lemma nth_int_Some: "0 \<le> i \<Longrightarrow> i < int (length xs) \<Longrightarrow> nth_int xs i = Some (xs ! nat i)"
  by (simp add: nth_int_def)

lemma upd_int_Some:
  "0 \<le> i \<Longrightarrow> i < int (length xs) \<Longrightarrow> upd_int xs i v = Some (xs[nat i := v])"
  by (simp add: upd_int_def)

lemma organize_pixel_total:
  assumes cov: "covered_by_cells pe"
    and p: "p \<in> set (List.product [0..image_height pe - 1] [0..image_width pe - 1])"
    and data: "3 * (image_width pe * image_height pe) \<le> int (length (m_data pcd_array))"
    and out: "3 * (image_width pe * image_height pe) \<le> int (length out)"
  shows "\<exists>out'. organize_pixel pe pcd_array p out = Inr out' \<and> length out' = length out"
proof -
  let ?P = "patchSize (pe_config pe)" and ?W = "image_width pe" and ?H = "image_height pe"
  let ?Wc = "nr_horizontal_cells pe" and ?Hc = "nr_vertical_cells pe"
  obtain r c where rc: "p = (r, c)" by (cases p)
  with p have r: "0 \<le> r" "r < ?H" and c: "0 \<le> c" "c < ?W" by auto
  from cov have P: "1 \<le> ?P" and H: "?H = ?Hc * ?P" and W: "?W = ?Wc * ?P"
    by (simp_all add: covered_by_cells_def)
  define mxn where "mxn = ?W * ?H"
  define sid where "sid = r * ?W + c"
  define shift where "shift = (r div ?P * ?Wc + c div ?P) * ?P * ?P + r mod ?P * ?P + c mod ?P"
  have "r * ?W \<le> (?H - 1) * ?W" using r c by (intro mult_right_mono) auto
  then have sid1: "sid < mxn" using c by (simp add: sid_def mxn_def algebra_simps)
  have "0 \<le> r * ?W" using r c by simp
  then have sid0: "0 \<le> sid" using c by (simp add: sid_def)
  have sh: "0 \<le> shift" "shift < mxn"
    using cell_index_bound[OF P r(1) r(2)[unfolded H] c(1) c(2)[unfolded W]]
    by (simp_all add: shift_def mxn_def H W)
  have mxn0: "0 \<le> mxn" using sid0 sid1 by simp
  have dv: "r sdiv ?P = r div ?P" "r smod ?P = r mod ?P" "c sdiv ?P = c div ?P" "c smod ?P = c mod ?P"
    using sdiv_smod_nonneg[of r ?P] sdiv_smod_nonneg[of c ?P] r c P by simp_all
  from data out have d: "3 * mxn \<le> int (length (m_data pcd_array))"
    and ol: "3 * mxn \<le> int (length out)" by (simp_all add: mxn_def)
  have reads: "nth_int (m_data pcd_array) sid = Some (m_data pcd_array ! nat sid)"
    "nth_int (m_data pcd_array) (mxn + sid) = Some (m_data pcd_array ! nat (mxn + sid))"
    "nth_int (m_data pcd_array) (2 * mxn + sid) = Some (m_data pcd_array ! nat (2 * mxn + sid))"
    using sid0 sid1 mxn0 d by (simp_all add: nth_int_Some)
  define x where "x = m_data pcd_array ! nat sid"
  define y where "y = m_data pcd_array ! nat (mxn + sid)"
  define z where "z = m_data pcd_array ! nat (2 * mxn + sid)"
  define o1 where "o1 = out[nat shift := x]"
  define o2 where "o2 = o1[nat (mxn + shift) := y]"
  define o3 where "o3 = o2[nat (2 * mxn + shift) := z]"
  have w1: "upd_int out shift x = Some o1"
    using sh mxn0 ol by (simp add: upd_int_Some o1_def)
  have w2: "upd_int o1 (mxn + shift) y = Some o2"
    using sh mxn0 ol by (simp add: upd_int_Some o1_def o2_def)
  have w3: "upd_int o2 (2 * mxn + shift) z = Some o3"
    using sh mxn0 ol by (simp add: upd_int_Some o1_def o2_def o3_def)
  have "organize_pixel pe pcd_array (r, c) out = Inr o3"
    using P reads w1 w2 w3
    by (simp add: organize_pixel_def Let_def dv flip: mxn_def sid_def shift_def x_def y_def z_def)
  moreover have "length o3 = length out" by (simp add: o1_def o2_def o3_def)
  ultimately show ?thesis using rc by blast
qed

text \<open>
  Claim C5, as amended: \<^verbatim>\<open>process\<close> begins with \<^verbatim>\<open>organizeByCell\<close> whatever the numbers of rows
  and columns of the input are. If the buffer of the input holds the \<open>3 * H * W\<close> values that
  are read, the stage completes and hands an array of the shape of the input to the rest of
  the pipeline.
\<close>

theorem organizeByCell_any_shape:
  assumes "covered_by_cells pe"
    and "3 * (image_width pe * image_height pe) \<le> int (length (m_data pcd_array))"
    and "3 * (image_width pe * image_height pe) \<le> int (m_rows pcd_array * m_cols pcd_array)"
  shows "\<exists>out. organizeByCell pe pcd_array =
           Inr \<lparr>m_rows = m_rows pcd_array, m_cols = m_cols pcd_array, m_data = out\<rparr> \<and>
           length out = m_rows pcd_array * m_cols pcd_array"
proof -
  let ?n = "m_rows pcd_array * m_cols pcd_array"
  let ?pixels = "List.product [0..image_height pe - 1] [0..image_width pe - 1]"
  have "\<exists>out. for_each (organize_pixel pe pcd_array) ?pixels (replicate ?n 0) = Inr out \<and>
          length out = ?n"
  proof (rule for_each_total[where J = "\<lambda>k out. length out = ?n"])
    show "length (replicate ?n (0::real)) = ?n" by simp
  next
    fix k and out :: "real list"
    assume k: "k < length ?pixels" and l: "length out = ?n"
    from k have "?pixels ! k \<in> set ?pixels" by (rule nth_mem)
    from organize_pixel_total[OF assms(1) this assms(2), of out] assms(3) l
    show "\<exists>s'. organize_pixel pe pcd_array (?pixels ! k) out = Inr s' \<and> length s' = ?n"
      by auto
  qed
  then show ?thesis by (auto simp: organizeByCell_def)
qed


text \<open>The frame \<open>A\<close> with a fourth column: an array of 4 rows and 4 columns.\<close>

definition wide_frame_A :: matrix where
  "wide_frame_A = \<lparr>m_rows = 4, m_cols = 4,
     m_data = [0, 1, 2, 3, 0, 0, 0, 0, 10, 11, 50, 51, 7, 7, 7, 7]\<rparr>"

definition wide_organized :: matrix where
  "wide_organized = \<lparr>m_rows = 4, m_cols = 4,
     m_data = [0, 1, 2, 3, 0, 0, 0, 0, 10, 11, 50, 51, 0, 0, 0, 0]\<rparr>"

lemma organize_wide: "organizeByCell line_extractor wide_frame_A = Inr wide_organized"
  by code_simp

lemma cells_wide:
  "findPlanarCells level_ops 4 line_extractor wide_organized =
     Inr (line_pe (cells_of [10, 11, 50, 51]) zero_row zero_row [0, 0, 0, 0],
          [True, True, True, True])"
  by code_simp

lemma tols_wide:
  "computeCellDistTols (line_pe cg grid eroded seg) wide_organized
     [True, True, True, True] = Inr tols_400"
  by (simp add: computeCellDistTols_def set_bits_def upt_rec cell_dist_tol_def mat_row_def
      coeff_def nth_int_def wide_organized_def norm3_def minus3_def dot_def upd_int_def Let_def
      line_fields line_config_def default_config_def eval_nat_numeral)

lemma emit_wide:
  "emit_labels (line_pe (cells_of [10, 11, 50, 51]) [[1, 1, 2, 2]] zero_row [0, 0, 0, 0]) [0, 2] [0, 1]
     wide_organized =
   Inr ([1, 1, 2, 2], line_pe (cells_of [10, 11, 50, 51]) zero_row zero_row [0, 1, 2, 0])"
  by code_simp

lemma process_wide:
  "process level_ops 4 line_extractor wide_frame_A = Some (Inr ([1, 1, 2, 2], after_A))"
  by (simp add: process_def organize_wide cells_wide histogram_line tols_wide grow_A merge_A
      emit_wide line_state_def after_A_def)

theorem organizeByCell_any_shape_witness:
  "covered_by_cells line_extractor \<and>
   3 * (image_width line_extractor * image_height line_extractor)
     \<le> int (length (m_data wide_frame_A)) \<and>
   3 * (image_width line_extractor * image_height line_extractor)
     \<le> int (m_rows wide_frame_A * m_cols wide_frame_A) \<and>
   organizeByCell line_extractor wide_frame_A = Inr wide_organized \<and>
   m_rows wide_organized = m_rows wide_frame_A \<and> m_cols wide_organized = m_cols wide_frame_A \<and>
   length (m_data wide_organized) = m_rows wide_frame_A * m_cols wide_frame_A"
proof -
  have h: "covered_by_cells line_extractor"
    "3 * (image_width line_extractor * image_height line_extractor)
       \<le> int (length (m_data wide_frame_A))"
    "3 * (image_width line_extractor * image_height line_extractor)
       \<le> int (m_rows wide_frame_A * m_cols wide_frame_A)"
    by (simp_all add: covered_by_cells_def line_extractor_def line_config_def default_config_def
        wide_frame_A_def)
  from organizeByCell_any_shape[OF h] obtain out where
    "organizeByCell line_extractor wide_frame_A =
       Inr \<lparr>m_rows = m_rows wide_frame_A, m_cols = m_cols wide_frame_A, m_data = out\<rparr>"
    "length out = m_rows wide_frame_A * m_cols wide_frame_A" by blast
  with organize_wide have
    "wide_organized = \<lparr>m_rows = m_rows wide_frame_A, m_cols = m_cols wide_frame_A, m_data = out\<rparr>"
    "length out = m_rows wide_frame_A * m_cols wide_frame_A" by simp_all
  then have "m_rows wide_organized = m_rows wide_frame_A \<and>
    m_cols wide_organized = m_cols wide_frame_A \<and>
    length (m_data wide_organized) = m_rows wide_frame_A * m_cols wide_frame_A"
    by (metis matrix.select_convs(1,2,3))
  with h organize_wide show ?thesis by simp
qed

text \<open>
  Claim C5 fails on the code: \<^verbatim>\<open>process\<close> has no check of the dimensions. For the image of one
  row of four pixels, the array \<open>wide_frame_A\<close> has 4 columns instead of 3; \<^verbatim>\<open>process\<close> raises
  no error, runs every stage and returns the labels of the frame \<open>A\<close>.
\<close>

theorem process_accepts_wrong_shape:
  "m_cols wide_frame_A = 4 \<and> m_rows wide_frame_A = 4 \<and>
   image_height line_extractor * image_width line_extractor = 4 \<and>
   process level_ops 4 line_extractor wide_frame_A = Some (Inr ([1, 1, 2, 2], after_A))"
proof -
  have "m_cols wide_frame_A = 4" "m_rows wide_frame_A = 4"
    "image_height line_extractor * image_width line_extractor = 4"
    by (simp_all add: wide_frame_A_def line_extractor_def)
  with process_wide show ?thesis by simp
qed

subsection \<open>An image with a margin\<close>

text \<open>
  The extractor as its constructor leaves it for an image of 2 rows and 3 columns and patches
  of 2 by 2 pixels: one cell, and a margin of one column.
\<close>

definition edge_extractor :: "unit plane_extractor" where
  "edge_extractor = \<lparr>pe_config = default_config\<lparr>patchSize := 2\<rparr>,
     nr_horizontal_cells = 1, nr_vertical_cells = 1,
     nr_total_cells = 1, nr_pts_per_cell = 4, image_height = 2, image_width = 3,
     cell_grid = [None],
     grid_plane_seg_map = [[0]], grid_plane_seg_map_eroded = [[0]],
     seg_map_stacked = [0, 0, 0, 0, 0, 0]\<rparr>"

text \<open>
  A wall at the depth 1000: the six points of the image, row by row, in an array of 6 rows
  and 3 columns, stored column by column.
\<close>

definition edge_frame :: matrix where
  "edge_frame = \<lparr>m_rows = 6, m_cols = 3,
     m_data = [0, 1, 2, 0, 1, 2, 0, 0, 0, 1, 1, 1, 1000, 1000, 1000, 1000, 1000, 1000]\<rparr>"

text \<open>
  The pixel in row 1 of the margin column: \<open>cell_c\<close> is 1, the number of a cell that does not
  exist, \<open>shift\<close> is 6, and the third write goes to \<open>2 * mxn + shift = 18\<close>, one past the end
  of a buffer of 18 values.
\<close>

lemma edge_pixel_out_of_bounds:
  "length out = 18 \<Longrightarrow> organize_pixel edge_extractor edge_frame (1, 2) out = Inl UndefinedBehaviour"
  by (simp add: organize_pixel_def edge_extractor_def edge_frame_def default_config_def Let_def
      nth_int_def upd_int_def signed_divide_int_def signed_modulo_int_def)

lemma organize_edge: "organizeByCell edge_extractor edge_frame = Inl UndefinedBehaviour"
  by code_simp

text \<open>
  Claim C6 fails on the code. For the image of 2 rows and 3 columns with patches of 2 by 2
  pixels the claim requires a label image whose column 2 is 0. \<^verbatim>\<open>organizeByCell\<close> does not skip
  the pixels of the margin: it computes a cell for them as for any other pixel and writes
  their coordinates past the block of the last cell, for the pixel \<open>(1, 2)\<close> past the end of
  the output buffer. \<^verbatim>\<open>process\<close> runs into undefined behaviour in its first stage, whatever
  \<^verbatim>\<open>CellSegment\<close> does, and delivers no label image.
\<close>

theorem process_margin_out_of_bounds:
  "nr_horizontal_cells edge_extractor * patchSize (pe_config edge_extractor) = 2 \<and>
   image_width edge_extractor = 3 \<and>
   int (m_rows edge_frame) = image_height edge_extractor * image_width edge_extractor \<and>
   m_cols edge_frame = 3 \<and>
   organizeByCell edge_extractor edge_frame = Inl UndefinedBehaviour \<and>
   process ops bitset_size edge_extractor edge_frame = Some (Inl UndefinedBehaviour)"
proof -
  have "process ops bitset_size edge_extractor edge_frame = Some (Inl UndefinedBehaviour)"
    by (simp add: process_def organize_edge)
  moreover have "nr_horizontal_cells edge_extractor * patchSize (pe_config edge_extractor) = 2"
    "image_width edge_extractor = 3"
    "int (m_rows edge_frame) = image_height edge_extractor * image_width edge_extractor"
    "m_cols edge_frame = 3"
    by (simp_all add: edge_extractor_def edge_frame_def default_config_def)
  ultimately show ?thesis using organize_edge by simp
qed

end
